theory Spec2Isabelle
  imports Main "HOL-Library.Char_ord" "HOL-Library.List_Lexorder"
begin

section \<open>JavaScript values used by the expiry calculator\<close>

text \<open>
  The numbers that \<^verbatim>\<open>expiryUtils.ts\<close> computes with are millisecond counts. They are
  modelled as mathematical integers, together with the one non-number that the code can
  meet: \<open>NaN\<close>, the time value of an \<^verbatim>\<open>Invalid Date\<close>. Integers are exact in a
  JavaScript number below \<open>2^53\<close> in magnitude, which covers every time value of a Date
  (at most \<open>8.64 * 10^15\<close>); rounding of larger numbers is outside the model.
\<close>

datatype jsnum = Num int | NaN

text \<open>\<^verbatim>\<open>a + b\<close> and \<^verbatim>\<open>a - b\<close>: \<open>NaN\<close> is absorbing.\<close>

fun js_add :: "jsnum \<Rightarrow> jsnum \<Rightarrow> jsnum" where
  "js_add (Num a) (Num b) = Num (a + b)"
| "js_add _ _ = NaN"

fun js_sub :: "jsnum \<Rightarrow> jsnum \<Rightarrow> jsnum" where
  "js_sub (Num a) (Num b) = Num (a - b)"
| "js_sub _ _ = NaN"

text \<open>\<^verbatim>\<open>a <= b\<close>: every comparison with \<open>NaN\<close> is false.\<close>

fun js_le :: "jsnum \<Rightarrow> jsnum \<Rightarrow> bool" where
  "js_le (Num a) (Num b) = (a \<le> b)"
| "js_le _ _ = False"

text \<open>\<^verbatim>\<open>Math.max(a, b)\<close>: \<open>NaN\<close> if either argument is.\<close>

fun Math_max :: "jsnum \<Rightarrow> jsnum \<Rightarrow> jsnum" where
  "Math_max (Num a) (Num b) = Num (max a b)"
| "Math_max _ _ = NaN"

text \<open>\<^verbatim>\<open>Math.floor(a / d)\<close> for a positive integer literal \<open>d\<close>; \<open>div\<close> on \<open>int\<close> rounds
  towards minus infinity, as \<^verbatim>\<open>Math.floor\<close> does.\<close>

fun Math_floor_div :: "jsnum \<Rightarrow> int \<Rightarrow> jsnum" where
  "Math_floor_div (Num a) d = Num (a div d)"
| "Math_floor_div NaN d = NaN"

text \<open>\<^verbatim>\<open>a % d\<close> for a positive integer literal \<open>d\<close>: the remainder takes the sign of the
  dividend.\<close>

fun js_rem :: "jsnum \<Rightarrow> int \<Rightarrow> jsnum" where
  "js_rem (Num a) d = Num (if a < 0 then - ((- a) mod d) else a mod d)"
| "js_rem NaN d = NaN"

text \<open>Decimal digits of a natural number, most significant first.\<close>

fun show_nat :: "nat \<Rightarrow> string" where
  "show_nat n =
     (if n < 10 then [''0123456789'' ! n]
      else show_nat (n div 10) @ [''0123456789'' ! (n mod 10)])"

declare show_nat.simps [simp del]

text \<open>\<^verbatim>\<open>v.toString()\<close> on a number that is an integer (below \<open>10^21\<close>, where JavaScript
  switches to exponent notation) or \<open>NaN\<close>.\<close>

fun toString :: "jsnum \<Rightarrow> string" where
  "toString NaN = ''NaN''"
| "toString (Num n) = (if n < 0 then CHR ''-'' # show_nat (nat (- n)) else show_nat (nat n))"

text \<open>\<^verbatim>\<open>s.padStart(n, c)\<close> with a one-character pad string.\<close>

definition padStart :: "nat \<Rightarrow> char \<Rightarrow> string \<Rightarrow> string" where
  "padStart n c s = replicate (n - length s) c @ s"

text \<open>\<^verbatim>\<open>parts.join(sep)\<close>.\<close>

fun join :: "string \<Rightarrow> string list \<Rightarrow> string" where
  "join sep [] = []"
| "join sep [x] = x"
| "join sep (x # y # ys) = x @ sep @ join sep (y # ys)"

section \<open>The expiry calculator (\<^verbatim>\<open>expiryUtils.ts\<close>)\<close>

text \<open>\<^verbatim>\<open>config.PHOTO_EXPIRY_HOURS\<close>.\<close>

definition PHOTO_EXPIRY_HOURS :: int where
  "PHOTO_EXPIRY_HOURS = 24"

text \<open>
  The time value of \<^verbatim>\<open>new Date(n)\<close>: a Date holds a time value of at most
  \<open>8.64 * 10^15\<close> milliseconds in magnitude, and is an \<^verbatim>\<open>Invalid Date\<close> (time value
  \<open>NaN\<close>) otherwise.
\<close>

definition valid_time :: "int \<Rightarrow> bool" where
  "valid_time t = (\<bar>t\<bar> \<le> 8640000000000000)"

fun new_Date :: "jsnum \<Rightarrow> jsnum" where
  "new_Date (Num t) = (if valid_time t then Num t else NaN)"
| "new_Date NaN = NaN"

text \<open>\<^verbatim>\<open>formatRemainingTime(ms)\<close>.\<close>

definition formatRemainingTime :: "jsnum \<Rightarrow> string" where
  "formatRemainingTime ms =
     (if js_le ms (Num 0) then ''00:00:00''
      else
        let totalSeconds = Math_floor_div ms 1000;
            hours = Math_floor_div totalSeconds 3600;
            minutes = Math_floor_div (js_rem totalSeconds 3600) 60;
            seconds = js_rem totalSeconds 60
        in join '':'' (map (\<lambda>v. padStart 2 (CHR ''0'') (toString v)) [hours, minutes, seconds]))"

record ExpiryInfo =
  isExpired :: bool
  remainingMs :: jsnum
  remainingFormatted :: string
  expiresAt :: jsnum

text \<open>
  \<^verbatim>\<open>getExpiryInfo(createdAt)\<close>. The string \<^verbatim>\<open>createdAt\<close> is parsed by the engine's
  \<^verbatim>\<open>new Date(createdAt)\<close>; the model takes the time value \<open>created\<close> of that Date
  (\<open>NaN\<close> when the string does not parse) and the time value \<open>now\<close> of the
  \<^verbatim>\<open>new Date()\<close> that the function reads from the clock.
\<close>

definition getExpiryInfo :: "jsnum \<Rightarrow> int \<Rightarrow> ExpiryInfo" where
  "getExpiryInfo created now =
     (let expiresAt = new_Date (js_add created (Num (PHOTO_EXPIRY_HOURS * 60 * 60 * 1000)));
          remainingMs = js_sub expiresAt (Num now);
          isExpired = js_le remainingMs (Num 0)
      in \<lparr> isExpired = isExpired,
           remainingMs = Math_max (Num 0) remainingMs,
           remainingFormatted = formatRemainingTime remainingMs,
           expiresAt = expiresAt \<rparr>)"

text \<open>\<^verbatim>\<open>isPhotoExpired(createdAt)\<close>.\<close>

definition isPhotoExpired :: "jsnum \<Rightarrow> int \<Rightarrow> bool" where
  "isPhotoExpired created now = isExpired (getExpiryInfo created now)"

text \<open>
  The format as the specification words it: the total whole seconds of the remainder,
  as hours (unbounded, no days), minutes and seconds, each in decimal and padded with a
  zero to two digits; a remainder that is not positive has no whole seconds.
\<close>

definition two_digits :: "nat \<Rightarrow> string" where
  "two_digits n = (if n < 10 then CHR ''0'' # show_nat n else show_nat n)"

definition spec_hms :: "int \<Rightarrow> string" where
  "spec_hms ms =
     (let t = nat (ms div 1000)
      in two_digits (t div 3600) @ '':'' @ two_digits (t div 60 mod 60) @ '':'' @ two_digits (t mod 60))"

text \<open>Reading a decimal numeral back, to say what the digits of a field denote.\<close>

definition digit_val :: "char \<Rightarrow> nat" where
  "digit_val c = of_char c - 48"

definition read_nat :: "string \<Rightarrow> nat" where
  "read_nat s = foldl (\<lambda>acc c. 10 * acc + digit_val c) 0 s"

definition is_digit :: "char \<Rightarrow> bool" where
  "is_digit c = (c \<in> set ''0123456789'')"

section \<open>The local photo store (\<^verbatim>\<open>db.ts\<close>)\<close>

text \<open>\<^verbatim>\<open>interface OfflinePhoto\<close>; the field \<^verbatim>\<open>id\<close> is \<open>photo_id\<close> here.\<close>

record OfflinePhoto =
  photo_id :: string
  dataUrl :: string
  width :: int
  height :: int
  layoutName :: string
  timestamp :: int
  synced :: bool
  supabaseId :: "string option"
  retries :: int

text \<open>
  The IndexedDB object store \<^verbatim>\<open>photos\<close>, created with \<^verbatim>\<open>keyPath: 'id'\<close>: its records
  in the order of their keys, which is the order in which \<^verbatim>\<open>getAll()\<close> returns them.
\<close>

type_synonym store = "OfflinePhoto list"

text \<open>\<^verbatim>\<open>store.get(id)\<close>: the record under the key, if any.\<close>

fun store_get :: "string \<Rightarrow> store \<Rightarrow> OfflinePhoto option" where
  "store_get k [] = None"
| "store_get k (q # qs) = (if photo_id q = k then Some q else store_get k qs)"

text \<open>\<^verbatim>\<open>store.put(item)\<close>: replaces the record with the same key, or inserts a new one
  at the place of its key.\<close>

fun store_put :: "OfflinePhoto \<Rightarrow> store \<Rightarrow> store" where
  "store_put p [] = [p]"
| "store_put p (q # qs) =
     (if photo_id p = photo_id q then p # qs
      else if photo_id p < photo_id q then p # q # qs
      else q # store_put p qs)"

text \<open>A well-formed object store holds one record per key, in key order.\<close>

definition store_ok :: "store \<Rightarrow> bool" where
  "store_ok s = sorted_wrt (<) (map photo_id s)"

section \<open>The environment: IndexedDB requests and the remote service\<close>

text \<open>The row written to the remote \<^verbatim>\<open>photos\<close> table.\<close>

record meta_row =
  row_id :: string
  file_url :: string
  row_width :: int
  row_height :: int
  layout_name :: string

text \<open>
  Every call that leaves the program: the five requests of \<^verbatim>\<open>db\<close> against IndexedDB,
  \<^verbatim>\<open>fetch(dataUrl)\<close> with its \<^verbatim>\<open>blob()\<close>, and the calls of the Supabase client
  (\<^verbatim>\<open>upload(filePath, blob, {upsert})\<close>, \<^verbatim>\<open>insert(row)\<close>, \<^verbatim>\<open>upsert(row)\<close>,
  \<^verbatim>\<open>remove([filePath])\<close>).
\<close>

datatype call =
    SavePhoto OfflinePhoto
  | GetPendingPhotos
  | GetDataUrl string
  | MarkSynced string string
  | IncrementRetry string
  | Fetch string
  | Upload string bool
  | Insert meta_row
  | Upsert meta_row
  | Remove string

text \<open>
  Whether a call fails is decided outside the program (an IndexedDB request error, the
  network, the remote service), so the model takes it from an environment: \<open>fails e c\<close>
  says that call \<open>c\<close> is rejected or returns an error. \<open>getPublicUrl\<close> is the Supabase
  client's pure function of that name. One environment describes one run of an
  operation of \<^verbatim>\<open>api\<close>.
\<close>

record env =
  fails :: "call \<Rightarrow> bool"
  getPublicUrl :: "string \<Rightarrow> string"

text \<open>A log entry: the call and whether it succeeded.\<close>

type_synonym event = "call \<times> bool"

text \<open>
  An operation of \<^verbatim>\<open>db\<close> is one IndexedDB transaction. It is rejected as a whole when
  the environment says so; otherwise its requests succeed, the \<^verbatim>\<open>put\<close> that
  \<^verbatim>\<open>markSynced\<close> and \<^verbatim>\<open>incrementRetry\<close> issue before they resolve included.

  \<open>StorageError\<close> is the rejection of a \<^verbatim>\<open>db\<close> promise (\<^verbatim>\<open>reject(request.error)\<close>);
  \<open>OfflineError\<close> is the \<^verbatim>\<open>Error('Offline: Photo saved to device. ...')\<close> thrown by
  \<^verbatim>\<open>shareCreate\<close>.
\<close>

datatype error = StorageError | OfflineError

text \<open>\<^verbatim>\<open>db.savePhoto(photo)\<close>.\<close>

definition savePhoto :: "env \<Rightarrow> OfflinePhoto \<Rightarrow> store \<Rightarrow> error + store" where
  "savePhoto e photo s =
     (if fails e (SavePhoto photo) then Inl StorageError else Inr (store_put photo s))"

text \<open>\<^verbatim>\<open>db.getPendingPhotos()\<close>.\<close>

definition getPendingPhotos :: "env \<Rightarrow> store \<Rightarrow> error + OfflinePhoto list" where
  "getPendingPhotos e s =
     (if fails e GetPendingPhotos then Inl StorageError else Inr (filter (\<lambda>p. \<not> synced p) s))"

text \<open>\<^verbatim>\<open>db.getDataUrl(id)\<close>; \<open>None\<close> is \<^verbatim>\<open>null\<close>.\<close>

definition getDataUrl :: "env \<Rightarrow> string \<Rightarrow> store \<Rightarrow> error + string option" where
  "getDataUrl e k s =
     (if fails e (GetDataUrl k) then Inl StorageError
      else Inr (case store_get k s of Some item \<Rightarrow> Some (dataUrl item) | None \<Rightarrow> None))"

text \<open>\<^verbatim>\<open>db.markSynced(id, supabaseId)\<close>.\<close>

definition markSynced :: "env \<Rightarrow> string \<Rightarrow> string \<Rightarrow> store \<Rightarrow> error + store" where
  "markSynced e k sid s =
     (if fails e (MarkSynced k sid) then Inl StorageError
      else case store_get k s of
             Some item \<Rightarrow> Inr (store_put (item\<lparr>synced := True, supabaseId := Some sid\<rparr>) s)
           | None \<Rightarrow> Inr s)"

text \<open>\<^verbatim>\<open>db.incrementRetry(id)\<close>; \<^verbatim>\<open>item.retries || 0\<close> replaces a falsy count by 0.\<close>

definition incrementRetry :: "env \<Rightarrow> string \<Rightarrow> store \<Rightarrow> error + store" where
  "incrementRetry e k s =
     (if fails e (IncrementRetry k) then Inl StorageError
      else case store_get k s of
             Some item \<Rightarrow>
               Inr (store_put (item\<lparr>retries := (if retries item = 0 then 0 else retries item) + 1\<rparr>) s)
           | None \<Rightarrow> Inr s)"

section \<open>The API client (\<^verbatim>\<open>api.ts\<close>)\<close>

text \<open>\<^verbatim>\<open>v || d\<close> on an optional number and on an optional string: \<^verbatim>\<open>undefined\<close>, \<open>0\<close>
  and the empty string are falsy.\<close>

definition or_int :: "int option \<Rightarrow> int \<Rightarrow> int" where
  "or_int v d = (case v of None \<Rightarrow> d | Some n \<Rightarrow> if n = 0 then d else n)"

definition or_string :: "string option \<Rightarrow> string \<Rightarrow> string" where
  "or_string v d = (case v of None \<Rightarrow> d | Some t \<Rightarrow> if t = [] then d else t)"

text \<open>What an operation of \<^verbatim>\<open>api\<close> leaves behind: the value or error of its promise,
  the object store, and the calls it made, in order.\<close>

record 'a outcome =
  result :: "error + 'a"
  db :: store
  log :: "event list"

text \<open>
  \<^verbatim>\<open>api.shareCreate(dataUrl, width, height, layoutName)\<close>. The identifier drawn by
  \<^verbatim>\<open>nanoid(10)\<close> and the reading of \<^verbatim>\<open>Date.now()\<close> are the inputs \<open>new_id\<close> and \<open>now\<close>.
  \<open>new_photo\<close> is the record \<^verbatim>\<open>offlinePhoto\<close> that the function builds and \<open>new_row\<close>
  the row that it inserts. Every failure inside the \<^verbatim>\<open>try\<close> block, a rejected
  \<^verbatim>\<open>db.markSynced\<close> included, ends in the \<^verbatim>\<open>catch\<close> that throws the offline error.
\<close>

abbreviation new_photo ::
  "string \<Rightarrow> int \<Rightarrow> string \<Rightarrow> int option \<Rightarrow> int option \<Rightarrow> string option \<Rightarrow> OfflinePhoto" where
  "new_photo new_id now url w h l \<equiv>
     \<lparr> photo_id = new_id, dataUrl = url, width = or_int w 1240, height = or_int h 1748,
       layoutName = or_string l ''default'', timestamp = now, synced = False,
       supabaseId = None, retries = 0 \<rparr>"

abbreviation new_row ::
  "env \<Rightarrow> string \<Rightarrow> int option \<Rightarrow> int option \<Rightarrow> string option \<Rightarrow> meta_row" where
  "new_row e new_id w h l \<equiv>
     \<lparr> row_id = new_id, file_url = getPublicUrl e (new_id @ ''.png''),
       row_width = or_int w 1240, row_height = or_int h 1748,
       layout_name = or_string l ''default'' \<rparr>"

definition shareCreate ::
  "env \<Rightarrow> string \<Rightarrow> int \<Rightarrow> string \<Rightarrow> int option \<Rightarrow> int option \<Rightarrow> string option \<Rightarrow> store
    \<Rightarrow> string outcome" where
  "shareCreate e new_id now url w h l s =
     (let offlinePhoto = new_photo new_id now url w h l;
          filePath = new_id @ ''.png'';
          row = new_row e new_id w h l
      in case savePhoto e offlinePhoto s of
           Inl err \<Rightarrow> \<lparr> result = Inl err, db = s, log = [(SavePhoto offlinePhoto, False)] \<rparr>
         | Inr s1 \<Rightarrow>
             if fails e (Fetch url) then
               \<lparr> result = Inl OfflineError, db = s1,
                 log = [(SavePhoto offlinePhoto, True), (Fetch url, False)] \<rparr>
             else if fails e (Upload filePath False) then
               \<lparr> result = Inl OfflineError, db = s1,
                 log = [(SavePhoto offlinePhoto, True), (Fetch url, True),
                        (Upload filePath False, False)] \<rparr>
             else if fails e (Insert row) then
               \<lparr> result = Inl OfflineError, db = s1,
                 log = [(SavePhoto offlinePhoto, True), (Fetch url, True),
                        (Upload filePath False, True), (Insert row, False),
                        (Remove filePath, \<not> fails e (Remove filePath))] \<rparr>
             else
               (case markSynced e new_id new_id s1 of
                  Inl err \<Rightarrow>
                    \<lparr> result = Inl OfflineError, db = s1,
                      log = [(SavePhoto offlinePhoto, True), (Fetch url, True),
                             (Upload filePath False, True), (Insert row, True),
                             (MarkSynced new_id new_id, False)] \<rparr>
                | Inr s2 \<Rightarrow>
                    \<lparr> result = Inr new_id, db = s2,
                      log = [(SavePhoto offlinePhoto, True), (Fetch url, True),
                             (Upload filePath False, True), (Insert row, True),
                             (MarkSynced new_id new_id, True)] \<rparr>))"

text \<open>\<^verbatim>\<open>if (photo.retries > 5) continue\<close>: the ceiling of the sync loop.\<close>

definition MAX_RETRY_COUNT :: int where
  "MAX_RETRY_COUNT = 5"

text \<open>
  The body of the loop of \<^verbatim>\<open>api.syncPendingPhotos\<close> for one record \<open>photo\<close> of the
  list read at the start of the run: the new store and the calls made. \<open>row_of\<close> is
  the row that it upserts. Every failure inside the \<^verbatim>\<open>try\<close> block is caught and
  logged, and the loop goes on.
\<close>

abbreviation row_of :: "env \<Rightarrow> OfflinePhoto \<Rightarrow> meta_row" where
  "row_of e photo \<equiv>
     \<lparr> row_id = photo_id photo, file_url = getPublicUrl e (photo_id photo @ ''.png''),
       row_width = width photo, row_height = height photo, layout_name = layoutName photo \<rparr>"

definition sync_photo :: "env \<Rightarrow> OfflinePhoto \<Rightarrow> store \<Rightarrow> store \<times> event list" where
  "sync_photo e photo s =
     (let k = photo_id photo;
          filePath = k @ ''.png'';
          row = row_of e photo
      in if retries photo > MAX_RETRY_COUNT then (s, [])
         else
           case incrementRetry e k s of
             Inl err \<Rightarrow> (s, [(IncrementRetry k, False)])
           | Inr s1 \<Rightarrow>
               if fails e (Fetch (dataUrl photo)) then
                 (s1, [(IncrementRetry k, True), (Fetch (dataUrl photo), False)])
               else if fails e (Upload filePath True) then
                 (s1, [(IncrementRetry k, True), (Fetch (dataUrl photo), True),
                       (Upload filePath True, False)])
               else if fails e (Upsert row) then
                 (s1, [(IncrementRetry k, True), (Fetch (dataUrl photo), True),
                       (Upload filePath True, True), (Upsert row, False)])
               else
                 (case markSynced e k k s1 of
                    Inl err \<Rightarrow>
                      (s1, [(IncrementRetry k, True), (Fetch (dataUrl photo), True),
                            (Upload filePath True, True), (Upsert row, True),
                            (MarkSynced k k, False)])
                  | Inr s2 \<Rightarrow>
                      (s2, [(IncrementRetry k, True), (Fetch (dataUrl photo), True),
                            (Upload filePath True, True), (Upsert row, True),
                            (MarkSynced k k, True)])))"

text \<open>\<^verbatim>\<open>for (const photo of pending) { ... }\<close>: the records one after the other.\<close>

fun sync_loop :: "env \<Rightarrow> OfflinePhoto list \<Rightarrow> store \<Rightarrow> store \<times> event list" where
  "sync_loop e [] s = (s, [])"
| "sync_loop e (photo # rest) s =
     (let (s1, evs1) = sync_photo e photo s;
          (s2, evs2) = sync_loop e rest s1
      in (s2, evs1 @ evs2))"

text \<open>\<^verbatim>\<open>api.syncPendingPhotos()\<close>. A rejected \<^verbatim>\<open>db.getPendingPhotos()\<close> is outside the
  \<^verbatim>\<open>try\<close> block and rejects the run.\<close>

definition syncPendingPhotos :: "env \<Rightarrow> store \<Rightarrow> unit outcome" where
  "syncPendingPhotos e s =
     (case getPendingPhotos e s of
        Inl err \<Rightarrow> \<lparr> result = Inl err, db = s, log = [(GetPendingPhotos, False)] \<rparr>
      | Inr pending \<Rightarrow>
          if length pending = 0 then
            \<lparr> result = Inr (), db = s, log = [(GetPendingPhotos, True)] \<rparr>
          else
            let (s1, evs) = sync_loop e pending s
            in \<lparr> result = Inr (), db = s1, log = (GetPendingPhotos, True) # evs \<rparr>)"

text \<open>
  The background sync of \<^verbatim>\<open>Index.tsx\<close>: one run at startup and one per tick of the
  interval timer, each in the environment it meets; the result of a run is dropped.
\<close>

fun sync_runs :: "env list \<Rightarrow> store \<Rightarrow> store" where
  "sync_runs [] s = s"
| "sync_runs (e # es) s = sync_runs es (db (syncPendingPhotos e s))"

text \<open>The calls that reach the remote service, and the record a call is about.\<close>

fun is_remote :: "call \<Rightarrow> bool" where
  "is_remote (Upload path u) = True"
| "is_remote (Insert row) = True"
| "is_remote (Upsert row) = True"
| "is_remote (Remove path) = True"
| "is_remote c = False"

fun about :: "string \<Rightarrow> call \<Rightarrow> bool" where
  "about k (SavePhoto p) = (photo_id p = k)"
| "about k GetPendingPhotos = False"
| "about k (GetDataUrl i) = (i = k)"
| "about k (MarkSynced i sid) = (i = k)"
| "about k (IncrementRetry i) = (i = k)"
| "about k (Fetch url) = False"
| "about k (Upload path u) = (path = k @ ''.png'')"
| "about k (Insert row) = (row_id row = k)"
| "about k (Upsert row) = (row_id row = k)"
| "about k (Remove path) = (path = k @ ''.png'')"

text \<open>
  The retry counts of a store \<open>s\<close> are kept in a later store \<open>s'\<close>: every record of
  \<open>s\<close> is still stored under its key in \<open>s'\<close>, with a retry count that is not smaller.
\<close>

definition retries_kept :: "store \<Rightarrow> store \<Rightarrow> bool" where
  "retries_kept s s' =
     (\<forall>p \<in> set s. case store_get (photo_id p) s' of
                      None \<Rightarrow> False
                    | Some p' \<Rightarrow> retries p \<le> retries p')"

section \<open>Example inputs\<close>

text \<open>An environment in which no call fails, with the public URL that the Supabase
  client builds for an object of the bucket \<^verbatim>\<open>photos\<close>.\<close>

definition online :: env where
  "online = \<lparr> fails = (\<lambda>c. False),
              getPublicUrl = (\<lambda>path. ''https://pdstlonykoeehwhyzcpy.supabase.co/storage/v1/object/public/photos/'' @ path) \<rparr>"

text \<open>The same environment with the listed calls failing.\<close>

definition failing :: "call list \<Rightarrow> env" where
  "failing cs = online\<lparr> fails := (\<lambda>c. c \<in> set cs) \<rparr>"

text \<open>A record waiting for its upload, with the given key and retry count.\<close>

definition pending_photo :: "string \<Rightarrow> int \<Rightarrow> OfflinePhoto" where
  "pending_photo k r =
     \<lparr> photo_id = k, dataUrl = ''data:image/png;base64,'' @ k, width = 1240, height = 1748,
       layoutName = ''default'', timestamp = 1765324800000, synced = False, supabaseId = None,
       retries = r \<rparr>"

section \<open>Properties of the expiry calculator\<close>

subsection \<open>Decimal numerals\<close>

lemma ten_cases:
  "k < 10 \<Longrightarrow> k = 0 \<or> k = 1 \<or> k = 2 \<or> k = 3 \<or> k = 4 \<or> k = 5 \<or> k = 6 \<or> k = 7 \<or> k = 8 \<or> k = (9::nat)"
  by arith

lemma digit_val_nth: "k < 10 \<Longrightarrow> digit_val (''0123456789'' ! k) = k"
  by (drule ten_cases) (auto simp: digit_val_def)

lemma is_digit_nth: "k < 10 \<Longrightarrow> is_digit (''0123456789'' ! k)"
  by (drule ten_cases) (auto simp: is_digit_def)

lemma read_nat_snoc: "read_nat (s @ [c]) = 10 * read_nat s + digit_val c"
  by (simp add: read_nat_def)

lemma read_show_nat: "read_nat (show_nat n) = n"
proof (induction n rule: show_nat.induct)
  case (1 n)
  show ?case
  proof (cases "n < 10")
    case True
    then show ?thesis by (simp add: show_nat.simps[of n] read_nat_def digit_val_nth)
  next
    case False
    with 1 have "read_nat (show_nat (n div 10)) = n div 10" by simp
    with False show ?thesis
      by (simp add: show_nat.simps[of n] read_nat_snoc digit_val_nth)
  qed
qed

lemma digits_show_nat: "c \<in> set (show_nat n) \<Longrightarrow> is_digit c"
proof (induction n rule: show_nat.induct)
  case (1 n)
  show ?case
  proof (cases "n < 10")
    case True
    with 1(2) show ?thesis by (simp add: show_nat.simps[of n] is_digit_nth)
  next
    case False
    with 1 show ?thesis
      by (auto simp add: show_nat.simps[of n] is_digit_nth)
  qed
qed

lemma show_nat_lt10: "n < 10 \<Longrightarrow> show_nat n = [''0123456789'' ! n]"
  by (simp add: show_nat.simps)

lemma length_show_nat_ge10: "10 \<le> n \<Longrightarrow> 2 \<le> length (show_nat n)"
  by (subst show_nat.simps) (simp add: Suc_le_eq show_nat.simps[of "n div 10"])

lemma read_two_digits: "read_nat (two_digits n) = n"
  using read_show_nat[of n] by (simp add: two_digits_def read_nat_def digit_val_def)

lemma digits_two_digits: "c \<in> set (two_digits n) \<Longrightarrow> is_digit c"
  by (auto simp: two_digits_def is_digit_def dest: digits_show_nat split: if_splits)

lemma length_two_digits_ge: "2 \<le> length (two_digits n)"
  by (simp add: two_digits_def show_nat_lt10 length_show_nat_ge10)

lemma length_two_digits_lt100: "n < 100 \<Longrightarrow> length (two_digits n) = 2"
  by (simp add: two_digits_def show_nat_lt10 show_nat.simps[of n])

lemma padStart_show_nat: "padStart 2 (CHR ''0'') (show_nat n) = two_digits n"
proof (cases "n < 10")
  case True
  then show ?thesis by (simp add: padStart_def two_digits_def show_nat_lt10)
next
  case False
  then have "2 \<le> length (show_nat n)" by (simp add: length_show_nat_ge10)
  with False show ?thesis by (simp add: padStart_def two_digits_def)
qed

subsection \<open>The format against the specification's wording\<close>

lemma minutes_of_seconds: "(t::nat) mod 3600 div 60 = t div 60 mod 60"
proof -
  have "t mod 3600 = 60 * (t div 60 mod 60) + t mod 60"
    using mod_mult2_eq [of t 60 60] by simp
  then show ?thesis by simp
qed

lemma format_refines: "formatRemainingTime (Num ms) = spec_hms ms"
proof (cases "ms \<le> 0")
  case True
  then have "nat (ms div 1000) = 0" by simp
  with True show ?thesis
    by (simp add: formatRemainingTime_def spec_hms_def two_digits_def show_nat.simps)
next
  case False
  define t where "t = nat (ms div 1000)"
  have t: "ms div 1000 = int t" using False by (simp add: t_def pos_imp_zdiv_nonneg_iff)
  have a: "nat (int t div 3600) = t div 3600" by (simp add: nat_div_distrib)
  have "int t mod 3600 div 60 = int (t mod 3600 div 60)" by (simp add: zmod_int zdiv_int)
  then have b: "nat (int t mod 3600 div 60) = t div 60 mod 60"
    by (simp add: minutes_of_seconds)
  have c: "nat (int t mod 60) = t mod 60" by (simp add: nat_mod_distrib)
  have nn: "\<not> int t div 3600 < 0" "\<not> int t mod 3600 div 60 < 0" "\<not> int t mod 60 < 0"
    by (simp_all add: not_less pos_imp_zdiv_nonneg_iff)
  show ?thesis using False
    by (simp add: formatRemainingTime_def spec_hms_def Let_def t a b c nn padStart_show_nat
        flip: t_def)
qed

lemma spec_hms_fields:
  "\<exists>h m s. spec_hms ms = h @ '':'' @ m @ '':'' @ s
     \<and> 2 \<le> length h \<and> length m = 2 \<and> length s = 2
     \<and> (\<forall>c \<in> set (h @ m @ s). is_digit c)
     \<and> read_nat h = nat (ms div 1000) div 3600
     \<and> read_nat m = nat (ms div 1000) div 60 mod 60
     \<and> read_nat s = nat (ms div 1000) mod 60"
proof -
  define t where "t = nat (ms div 1000)"
  let ?h = "two_digits (t div 3600)" and ?m = "two_digits (t div 60 mod 60)"
    and ?s = "two_digits (t mod 60)"
  have "spec_hms ms = ?h @ '':'' @ ?m @ '':'' @ ?s"
    by (simp add: spec_hms_def Let_def t_def)
  moreover have "2 \<le> length ?h" by (rule length_two_digits_ge)
  moreover have "length ?m = 2" by (simp add: length_two_digits_lt100)
  moreover have "length ?s = 2" by (simp add: length_two_digits_lt100)
  moreover have "\<forall>c \<in> set (?h @ ?m @ ?s). is_digit c"
    by (auto dest: digits_two_digits)
  moreover have "read_nat ?h = t div 3600" "read_nat ?m = t div 60 mod 60" "read_nat ?s = t mod 60"
    by (rule read_two_digits)+
  ultimately show ?thesis
    unfolding t_def [symmetric] by blast
qed

text \<open>
  Claim C7. For every integer count of milliseconds \<open>ms\<close>, \<open>formatRemainingTime\<close> renders
  the whole seconds of \<open>ms\<close> as the specification words it: hours, minutes and seconds
  in decimal, each padded to two digits, with hours that keep growing past 23 (no days).
  The result splits at its two colons into an hours field of at least two digits and
  minutes and seconds fields of exactly two, and the digits read back as
  \<open>t div 3600\<close>, \<open>t div 60 mod 60\<close> and \<open>t mod 60\<close> for \<open>t\<close> the whole seconds.
  For \<open>ms \<le> 0\<close> the result is \<open>00:00:00\<close>; 3,725,000 ms gives \<open>01:02:05\<close> and 26 hours
  give \<open>26:00:00\<close>.
\<close>

theorem formatRemainingTime_hms:
  "formatRemainingTime (Num ms) = spec_hms ms
   \<and> (\<exists>h m s. formatRemainingTime (Num ms) = h @ '':'' @ m @ '':'' @ s
         \<and> 2 \<le> length h \<and> length m = 2 \<and> length s = 2
         \<and> (\<forall>c \<in> set (h @ m @ s). is_digit c)
         \<and> read_nat h = nat (ms div 1000) div 3600
         \<and> read_nat m = nat (ms div 1000) div 60 mod 60
         \<and> read_nat s = nat (ms div 1000) mod 60)
   \<and> (ms \<le> 0 \<longrightarrow> formatRemainingTime (Num ms) = ''00:00:00'')
   \<and> formatRemainingTime (Num 3725000) = ''01:02:05''
   \<and> formatRemainingTime (Num (26 * 60 * 60 * 1000)) = ''26:00:00''"
proof (intro conjI impI)
  show "formatRemainingTime (Num ms) = spec_hms ms" by (rule format_refines)
  show "\<exists>h m s. formatRemainingTime (Num ms) = h @ '':'' @ m @ '':'' @ s
         \<and> 2 \<le> length h \<and> length m = 2 \<and> length s = 2
         \<and> (\<forall>c \<in> set (h @ m @ s). is_digit c)
         \<and> read_nat h = nat (ms div 1000) div 3600
         \<and> read_nat m = nat (ms div 1000) div 60 mod 60
         \<and> read_nat s = nat (ms div 1000) mod 60"
    unfolding format_refines by (rule spec_hms_fields)
  show "formatRemainingTime (Num ms) = ''00:00:00''" if "ms \<le> 0"
    using that by (simp add: formatRemainingTime_def)
  show "formatRemainingTime (Num 3725000) = ''01:02:05''"
    by (simp add: formatRemainingTime_def padStart_def show_nat.simps)
  show "formatRemainingTime (Num (26 * 60 * 60 * 1000)) = ''26:00:00''"
    by (simp add: formatRemainingTime_def padStart_def show_nat.simps)
qed

theorem formatRemainingTime_hms_witness:
  "(-1500::int) \<le> 0 \<and> formatRemainingTime (Num (-1500)) = ''00:00:00''
   \<and> formatRemainingTime (Num 360000999) = ''100:00:00''"
  using formatRemainingTime_hms [of "-1500"] formatRemainingTime_hms [of 360000999]
  by (simp add: spec_hms_def two_digits_def show_nat.simps)

subsection \<open>Expiry of a creation timestamp\<close>

lemma getExpiryInfo_valid:
  assumes "valid_time (createdAt + 24 * 60 * 60 * 1000)"
  shows "getExpiryInfo (Num createdAt) now =
           \<lparr> isExpired = (createdAt + 24 * 60 * 60 * 1000 \<le> now),
             remainingMs = Num (max 0 (createdAt + 24 * 60 * 60 * 1000 - now)),
             remainingFormatted = spec_hms (createdAt + 24 * 60 * 60 * 1000 - now),
             expiresAt = Num (createdAt + 24 * 60 * 60 * 1000) \<rparr>"
  using assms
  by (simp add: getExpiryInfo_def PHOTO_EXPIRY_HOURS_def Let_def format_refines)

text \<open>
  Claim C6. Let \<open>createdAt\<close> be the time value of the creation timestamp and \<open>now\<close> the
  clock reading, and let the expiry instant \<open>createdAt + 24 h\<close> be the time value of a
  Date (at most \<open>8.64 * 10^15\<close> ms from the epoch, as every timestamp of a stored photo
  is). Then \<open>getExpiryInfo\<close> returns \<open>expiresAt = createdAt + 24 h\<close>,
  \<open>remainingMs = max 0 (expiresAt - now)\<close> and \<open>isExpired = (expiresAt \<le> now)\<close>, and
  the remaining time formatted as the specification words it. In particular at
  \<open>now = createdAt\<close> the photo is not expired, with the full window of 86,400,000 ms
  left, shown as \<open>24:00:00\<close>; at \<open>now = createdAt + 25 h\<close> it is expired, with 0 ms
  left, shown as \<open>00:00:00\<close>.
\<close>

theorem getExpiryInfo_correct:
  assumes "valid_time (createdAt + PHOTO_EXPIRY_HOURS * 60 * 60 * 1000)"
  shows "expiresAt (getExpiryInfo (Num createdAt) now)
           = Num (createdAt + PHOTO_EXPIRY_HOURS * 60 * 60 * 1000)
    \<and> remainingMs (getExpiryInfo (Num createdAt) now)
           = Num (max 0 (createdAt + PHOTO_EXPIRY_HOURS * 60 * 60 * 1000 - now))
    \<and> isExpired (getExpiryInfo (Num createdAt) now)
           = (createdAt + PHOTO_EXPIRY_HOURS * 60 * 60 * 1000 \<le> now)
    \<and> isPhotoExpired (Num createdAt) now
           = (createdAt + PHOTO_EXPIRY_HOURS * 60 * 60 * 1000 \<le> now)
    \<and> remainingFormatted (getExpiryInfo (Num createdAt) now)
           = spec_hms (createdAt + PHOTO_EXPIRY_HOURS * 60 * 60 * 1000 - now)
    \<and> getExpiryInfo (Num createdAt) createdAt
           = \<lparr> isExpired = False, remainingMs = Num 86400000,
               remainingFormatted = ''24:00:00'', expiresAt = Num (createdAt + 86400000) \<rparr>
    \<and> getExpiryInfo (Num createdAt) (createdAt + 25 * 60 * 60 * 1000)
           = \<lparr> isExpired = True, remainingMs = Num 0,
               remainingFormatted = ''00:00:00'', expiresAt = Num (createdAt + 86400000) \<rparr>"
proof -
  have v: "valid_time (createdAt + 24 * 60 * 60 * 1000)"
    using assms by (simp add: PHOTO_EXPIRY_HOURS_def)
  have full: "spec_hms 86400000 = ''24:00:00''"
    by (simp add: spec_hms_def two_digits_def show_nat.simps)
  have none: "spec_hms (- 3600000) = ''00:00:00''"
    by (simp add: spec_hms_def two_digits_def show_nat.simps)
  show ?thesis
    by (simp add: getExpiryInfo_valid [OF v] isPhotoExpired_def PHOTO_EXPIRY_HOURS_def full none)
qed

theorem getExpiryInfo_correct_witness:
  "valid_time (1765324800000 + PHOTO_EXPIRY_HOURS * 60 * 60 * 1000)
   \<and> getExpiryInfo (Num 1765324800000) (1765324800000 + 82675000)
       = \<lparr> isExpired = False, remainingMs = Num 3725000,
           remainingFormatted = ''01:02:05'', expiresAt = Num 1765411200000 \<rparr>
   \<and> getExpiryInfo (Num 1765324800000) 1765324800000
       = \<lparr> isExpired = False, remainingMs = Num 86400000,
           remainingFormatted = ''24:00:00'', expiresAt = Num 1765411200000 \<rparr>
   \<and> getExpiryInfo (Num 1765324800000) 1765414800000
       = \<lparr> isExpired = True, remainingMs = Num 0,
           remainingFormatted = ''00:00:00'', expiresAt = Num 1765411200000 \<rparr>"
proof -
  have v: "valid_time (1765324800000 + PHOTO_EXPIRY_HOURS * 60 * 60 * 1000)"
    by (simp add: valid_time_def PHOTO_EXPIRY_HOURS_def)
  have "getExpiryInfo (Num 1765324800000) (1765324800000 + 82675000)
       = \<lparr> isExpired = False, remainingMs = Num 3725000,
           remainingFormatted = ''01:02:05'', expiresAt = Num 1765411200000 \<rparr>"
    using getExpiryInfo_correct [OF v, of "1765324800000 + 82675000"]
    by (intro ExpiryInfo.equality)
       (simp_all add: PHOTO_EXPIRY_HOURS_def spec_hms_def two_digits_def show_nat.simps)
  with v getExpiryInfo_correct [OF v, of 0] show ?thesis by simp
qed

text \<open>
  Claim C8, as stated, at an input: a \<^verbatim>\<open>createdAt\<close> that does not parse gives an
  \<^verbatim>\<open>Invalid Date\<close>, whose time value is \<open>NaN\<close>. \<open>getExpiryInfo\<close> has no check of
  its input and raises nothing: it returns a record, and the record says that the
  photo is not expired.
\<close>

theorem getExpiryInfo_malformed_counterexample:
  "getExpiryInfo NaN 1765324800000
     = \<lparr> isExpired = False, remainingMs = NaN, remainingFormatted = ''NaN:NaN:NaN'',
         expiresAt = NaN \<rparr>"
  by (simp add: getExpiryInfo_def formatRemainingTime_def padStart_def)

text \<open>
  Claim C8, amended. For a \<^verbatim>\<open>createdAt\<close> that does not parse, \<open>getExpiryInfo\<close> does
  not fail: at every clock reading it returns \<open>isExpired = false\<close>, \<open>remainingMs = NaN\<close>,
  \<open>remainingFormatted = "NaN:NaN:NaN"\<close> and an invalid \<open>expiresAt\<close>, and
  \<open>isPhotoExpired\<close> is false, so that such a photo is never reported as expired.
\<close>

theorem getExpiryInfo_malformed:
  "getExpiryInfo NaN now
     = \<lparr> isExpired = False, remainingMs = NaN, remainingFormatted = ''NaN:NaN:NaN'',
         expiresAt = NaN \<rparr>
   \<and> isPhotoExpired NaN now = False"
  by (simp add: getExpiryInfo_def isPhotoExpired_def formatRemainingTime_def padStart_def)

section \<open>Properties of the local photo store\<close>

subsection \<open>The object store\<close>

lemma store_get_put:
  "store_get k (store_put p s) = (if k = photo_id p then Some p else store_get k s)"
  by (induction s) auto

lemma store_get_key: "store_get k s = Some p \<Longrightarrow> photo_id p = k"
  by (induction s) (auto split: if_splits)

lemma store_get_mem: "store_get k s = Some p \<Longrightarrow> p \<in> set s"
  by (induction s) (auto split: if_splits)

lemma store_get_None: "store_get k s = None \<longleftrightarrow> k \<notin> photo_id ` set s"
  by (induction s) auto

lemma put_mem: "p \<in> set (store_put p s)"
  by (induction s) auto

lemma keys_put: "photo_id ` set (store_put p s) = insert (photo_id p) (photo_id ` set s)"
  by (induction s) auto

lemma store_ok_Cons:
  "store_ok (q # qs) \<longleftrightarrow> (\<forall>r \<in> set qs. photo_id q < photo_id r) \<and> store_ok qs"
  by (auto simp: store_ok_def)

lemma store_ok_put: "store_ok s \<Longrightarrow> store_ok (store_put p s)"
proof (induction s)
  case Nil
  then show ?case by (simp add: store_ok_def)
next
  case (Cons q qs)
  have rest: "\<forall>r \<in> set (store_put p qs). photo_id q < photo_id r"
    if "photo_id q < photo_id p"
  proof
    fix r assume "r \<in> set (store_put p qs)"
    then have "photo_id r \<in> insert (photo_id p) (photo_id ` set qs)"
      using keys_put [of p qs] by blast
    with that Cons.prems show "photo_id q < photo_id r"
      by (auto simp: store_ok_Cons)
  qed
  show ?case
  proof (cases "photo_id p = photo_id q")
    case True
    with Cons.prems show ?thesis by (simp add: store_ok_Cons)
  next
    case False
    show ?thesis
    proof (cases "photo_id p < photo_id q")
      case True
      with Cons.prems show ?thesis
        by (auto simp: store_ok_Cons intro: less_trans)
    next
      case False
      with \<open>photo_id p \<noteq> photo_id q\<close> have "photo_id q < photo_id p" by simp
      with Cons False \<open>photo_id p \<noteq> photo_id q\<close> rest show ?thesis
        by (simp add: store_ok_Cons)
    qed
  qed
qed

lemma store_ok_distinct: "store_ok s \<Longrightarrow> distinct (map photo_id s)"
  by (induction s) (auto simp: store_ok_Cons)

lemma store_get_of_mem: "store_ok s \<Longrightarrow> p \<in> set s \<Longrightarrow> store_get (photo_id p) s = Some p"
  by (induction s) (auto simp: store_ok_Cons)

lemma distinct_filter_keys: "distinct (map photo_id s) \<Longrightarrow> distinct (map photo_id (filter P s))"
  by (simp add: distinct_map_filter)

subsection \<open>The operations of \<^verbatim>\<open>db\<close>\<close>

lemma markSynced_get:
  "markSynced e k sid s = Inr s' \<Longrightarrow>
   store_get j s' =
     (if j = k then map_option (\<lambda>item. item\<lparr>synced := True, supabaseId := Some sid\<rparr>) (store_get k s)
      else store_get j s)"
  by (auto simp: markSynced_def store_get_put dest: store_get_key split: if_splits option.splits)

lemma incrementRetry_get:
  "incrementRetry e k s = Inr s' \<Longrightarrow>
   store_get j s' =
     (if j = k then map_option (\<lambda>item. item\<lparr>retries := retries item + 1\<rparr>) (store_get k s)
      else store_get j s)"
  by (auto simp: incrementRetry_def store_get_put dest: store_get_key
      split: if_splits option.splits)

lemma markSynced_ok: "store_ok s \<Longrightarrow> markSynced e k sid s = Inr s' \<Longrightarrow> store_ok s'"
  by (auto simp: markSynced_def store_ok_put split: if_splits option.splits)

lemma incrementRetry_ok: "store_ok s \<Longrightarrow> incrementRetry e k s = Inr s' \<Longrightarrow> store_ok s'"
  by (auto simp: incrementRetry_def store_ok_put split: if_splits option.splits)

lemma markSynced_result:
  "markSynced e k sid s = (if fails e (MarkSynced k sid) then Inl StorageError
     else Inr (case store_get k s of None \<Rightarrow> s
               | Some item \<Rightarrow> store_put (item\<lparr>synced := True, supabaseId := Some sid\<rparr>) s))"
  by (simp add: markSynced_def split: option.splits)

lemma incrementRetry_result:
  "incrementRetry e k s = (if fails e (IncrementRetry k) then Inl StorageError
     else Inr (case store_get k s of None \<Rightarrow> s
               | Some item \<Rightarrow> store_put (item\<lparr>retries := retries item + 1\<rparr>) s))"
  by (simp add: incrementRetry_def split: option.splits)

text \<open>
  Claim C9. For an identifier \<open>k\<close> under which the object store holds no record,
  \<open>markSynced\<close> and \<open>incrementRetry\<close>, when their IndexedDB request goes through,
  resolve without an error and leave the store as it was.
\<close>

theorem missing_id_noop:
  assumes "k \<notin> photo_id ` set s"
  shows "(\<not> fails e (MarkSynced k sid) \<longrightarrow> markSynced e k sid s = Inr s)
       \<and> (\<not> fails e (IncrementRetry k) \<longrightarrow> incrementRetry e k s = Inr s)"
proof -
  from assms have "store_get k s = None" by (simp add: store_get_None)
  then show ?thesis by (simp add: markSynced_def incrementRetry_def)
qed

theorem missing_id_noop_witness:
  "''zzz'' \<notin> photo_id ` set [pending_photo ''abc'' 2]
   \<and> \<not> fails online (MarkSynced ''zzz'' ''zzz'')
   \<and> \<not> fails online (IncrementRetry ''zzz'')
   \<and> markSynced online ''zzz'' ''zzz'' [pending_photo ''abc'' 2] = Inr [pending_photo ''abc'' 2]
   \<and> incrementRetry online ''zzz'' [pending_photo ''abc'' 2] = Inr [pending_photo ''abc'' 2]"
proof -
  have absent: "''zzz'' \<notin> photo_id ` set [pending_photo ''abc'' 2]"
    by (simp add: pending_photo_def)
  have up: "\<not> fails online (MarkSynced ''zzz'' ''zzz'')" "\<not> fails online (IncrementRetry ''zzz'')"
    by (simp_all add: online_def)
  from missing_id_noop [OF absent, of online "''zzz''"] absent up show ?thesis by blast
qed

section \<open>Properties of the sync engine\<close>

subsection \<open>One record of the loop\<close>

lemma sync_photo_skip: "MAX_RETRY_COUNT < retries photo \<Longrightarrow> sync_photo e photo s = (s, [])"
  by (simp add: sync_photo_def)

lemma sync_photo_get_other:
  "j \<noteq> photo_id photo \<Longrightarrow> store_get j (fst (sync_photo e photo s)) = store_get j s"
  by (auto simp: sync_photo_def Let_def markSynced_result incrementRetry_result store_get_put
      dest: store_get_key split: option.splits)

lemma sync_photo_ok: "store_ok s \<Longrightarrow> store_ok (fst (sync_photo e photo s))"
  by (auto simp: sync_photo_def Let_def markSynced_result incrementRetry_result store_ok_put
      split: option.splits)

lemma sync_photo_log: "snd (sync_photo e photo s) = snd (sync_photo e photo s')"
  by (simp add: sync_photo_def Let_def markSynced_result incrementRetry_result)

lemma sync_photo_get_self:
  "store_get (photo_id photo) (fst (sync_photo e photo s)) =
     (if MAX_RETRY_COUNT < retries photo \<or> fails e (IncrementRetry (photo_id photo))
      then store_get (photo_id photo) s
      else if fails e (Fetch (dataUrl photo))
            \<or> fails e (Upload (photo_id photo @ ''.png'') True)
            \<or> fails e (Upsert \<lparr> row_id = photo_id photo,
                   file_url = getPublicUrl e (photo_id photo @ ''.png''),
                   row_width = width photo, row_height = height photo,
                   layout_name = layoutName photo \<rparr>)
            \<or> fails e (MarkSynced (photo_id photo) (photo_id photo))
      then map_option (\<lambda>item. item\<lparr>retries := retries item + 1\<rparr>)
             (store_get (photo_id photo) s)
      else map_option (\<lambda>item. item\<lparr>retries := retries item + 1, synced := True,
                                   supabaseId := Some (photo_id photo)\<rparr>)
             (store_get (photo_id photo) s))"
  by (auto simp: sync_photo_def Let_def markSynced_result incrementRetry_result store_get_put
      dest: store_get_key split: option.splits)

subsection \<open>The loop\<close>

lemma sync_loop_Cons_fst:
  "fst (sync_loop e (p # ps) s) = fst (sync_loop e ps (fst (sync_photo e p s)))"
  by (simp split: prod.splits)

lemma sync_loop_get_other:
  "j \<notin> photo_id ` set ps \<Longrightarrow> store_get j (fst (sync_loop e ps s)) = store_get j s"
proof (induction ps arbitrary: s)
  case Nil
  then show ?case by simp
next
  case (Cons p ps)
  then have "store_get j (fst (sync_loop e ps (fst (sync_photo e p s))))
               = store_get j (fst (sync_photo e p s))"
    by simp
  also have "\<dots> = store_get j s"
    using Cons.prems by (simp add: sync_photo_get_other)
  finally show ?case unfolding sync_loop_Cons_fst .
qed

lemma sync_loop_ok: "store_ok s \<Longrightarrow> store_ok (fst (sync_loop e ps s))"
proof (induction ps arbitrary: s)
  case Nil
  then show ?case by simp
next
  case (Cons p ps)
  from Cons.prems have "store_ok (fst (sync_photo e p s))" by (rule sync_photo_ok)
  then have "store_ok (fst (sync_loop e ps (fst (sync_photo e p s))))" by (rule Cons.IH)
  then show ?case unfolding sync_loop_Cons_fst .
qed

lemma sync_loop_Cons_snd:
  "snd (sync_loop e (p # ps) s)
     = snd (sync_photo e p s) @ snd (sync_loop e ps (fst (sync_photo e p s)))"
  by (simp split: prod.splits)

lemma sync_loop_log:
  "snd (sync_loop e ps s) = concat (map (\<lambda>p. snd (sync_photo e p [])) ps)"
proof (induction ps arbitrary: s)
  case Nil
  then show ?case by simp
next
  case (Cons p ps)
  show ?case
    unfolding sync_loop_Cons_snd Cons.IH
    using sync_photo_log [of e p s "[]"] by simp
qed

lemma sync_loop_get_self:
  assumes "distinct (map photo_id ps)" and "p \<in> set ps"
  shows "store_get (photo_id p) (fst (sync_loop e ps s))
           = store_get (photo_id p) (fst (sync_photo e p s))"
  using assms
proof (induction ps arbitrary: s)
  case Nil
  then show ?case by simp
next
  case (Cons q qs)
  show ?case
  proof (cases "p = q")
    case True
    with Cons.prems have "photo_id p \<notin> photo_id ` set qs" by auto
    then show ?thesis
      unfolding sync_loop_Cons_fst True [symmetric] by (rule sync_loop_get_other)
  next
    case False
    with Cons.prems have mem: "p \<in> set qs" and d: "distinct (map photo_id qs)"
      and nq: "photo_id q \<notin> photo_id ` set qs" by auto
    from mem nq have ne: "photo_id p \<noteq> photo_id q" by (metis imageI)
    have "store_get (photo_id p) (fst (sync_loop e qs (fst (sync_photo e q s))))
            = store_get (photo_id p) (fst (sync_photo e p (fst (sync_photo e q s))))"
      using d mem by (rule Cons.IH)
    also have "\<dots> = store_get (photo_id p) (fst (sync_photo e p s))"
      using ne by (simp add: sync_photo_get_self sync_photo_get_other)
    finally show ?thesis unfolding sync_loop_Cons_fst .
  qed
qed

subsection \<open>One run\<close>

lemma run_db:
  "db (syncPendingPhotos e s) =
     (if fails e GetPendingPhotos then s
      else fst (sync_loop e (filter (\<lambda>p. \<not> synced p) s) s))"
  by (simp add: syncPendingPhotos_def getPendingPhotos_def split: prod.splits)

lemma run_log:
  "log (syncPendingPhotos e s) =
     (if fails e GetPendingPhotos then [(GetPendingPhotos, False)]
      else (GetPendingPhotos, True) # snd (sync_loop e (filter (\<lambda>p. \<not> synced p) s) s))"
  by (simp add: syncPendingPhotos_def getPendingPhotos_def split: prod.splits)

lemma run_result:
  "result (syncPendingPhotos e s) = (if fails e GetPendingPhotos then Inl StorageError else Inr ())"
  by (simp add: syncPendingPhotos_def getPendingPhotos_def split: prod.splits)

lemma run_ok: "store_ok s \<Longrightarrow> store_ok (db (syncPendingPhotos e s))"
  by (simp add: run_db sync_loop_ok)

lemma pending_distinct: "store_ok s \<Longrightarrow> distinct (map photo_id (filter (\<lambda>p. \<not> synced p) s))"
  by (simp add: store_ok_distinct distinct_map_filter)

lemma run_get_pending:
  assumes "store_ok s" and "p \<in> set s" and "\<not> synced p" and "\<not> fails e GetPendingPhotos"
  shows "store_get (photo_id p) (db (syncPendingPhotos e s))
           = store_get (photo_id p) (fst (sync_photo e p s))"
proof -
  from assms have "p \<in> set (filter (\<lambda>p. \<not> synced p) s)" by simp
  with pending_distinct [OF assms(1)] show ?thesis
    using assms(4) by (simp add: run_db sync_loop_get_self)
qed

lemma sync_photo_about:
  "(c, ok) \<in> set (snd (sync_photo e q s)) \<Longrightarrow> about k c \<Longrightarrow>
     k = photo_id q \<and> \<not> MAX_RETRY_COUNT < retries q"
  by (auto simp: sync_photo_def Let_def markSynced_result incrementRetry_result
      split: if_splits)

lemma in_pending: "store_ok s \<Longrightarrow> store_get k s = Some p \<Longrightarrow> \<not> synced p
   \<Longrightarrow> \<not> fails e' GetPendingPhotos
   \<Longrightarrow> \<exists>ps. getPendingPhotos e' s = Inr ps \<and> p \<in> set ps"
  by (auto simp: getPendingPhotos_def dest: store_get_mem)

text \<open>
  Claim C3. Let the store hold an unsynced record \<open>p\<close> whose retry count exceeds the
  ceiling of 5. In a sync run, in any environment, no call is made about that record (no
  increment, no upload, no metadata write, no marking), the record stays in the store
  exactly as it was, with \<open>synced = false\<close> and the same count, and
  \<open>getPendingPhotos\<close> still lists it afterwards.
\<close>

theorem retry_ceiling:
  assumes "store_ok s" and "p \<in> set s" and "\<not> synced p" and "MAX_RETRY_COUNT < retries p"
  shows "(\<forall>c ok. (c, ok) \<in> set (log (syncPendingPhotos e s)) \<longrightarrow> \<not> about (photo_id p) c)
       \<and> store_get (photo_id p) (db (syncPendingPhotos e s)) = Some p
       \<and> p \<in> set (db (syncPendingPhotos e s))
       \<and> (\<forall>e'. \<not> fails e' GetPendingPhotos \<longrightarrow>
             (\<exists>ps. getPendingPhotos e' (db (syncPendingPhotos e s)) = Inr ps \<and> p \<in> set ps))"
proof -
  let ?pending = "filter (\<lambda>p. \<not> synced p) s"
  have get: "store_get (photo_id p) s = Some p"
    using assms(1,2) by (rule store_get_of_mem)
  have quiet: "\<not> about (photo_id p) c" if "(c, ok) \<in> set (log (syncPendingPhotos e s))" for c ok
  proof
    assume ab: "about (photo_id p) c"
    with that have "\<not> fails e GetPendingPhotos"
      by (auto simp: run_log split: if_splits)
    with that ab have "(c, ok) \<in> set (snd (sync_loop e ?pending s))"
      by (auto simp: run_log)
    then obtain q where q: "q \<in> set ?pending" and "(c, ok) \<in> set (snd (sync_photo e q []))"
      by (auto simp: sync_loop_log)
    with ab have k: "photo_id p = photo_id q" and r: "\<not> MAX_RETRY_COUNT < retries q"
      using sync_photo_about [of c ok e q "[]" "photo_id p"] by simp_all
    from q have "q \<in> set s" by simp
    with assms(1) have "store_get (photo_id q) s = Some q" by (rule store_get_of_mem)
    with get k have "q = p" by simp
    with r assms(4) show False by simp
  qed
  have same: "store_get (photo_id p) (db (syncPendingPhotos e s)) = Some p"
  proof (cases "fails e GetPendingPhotos")
    case True
    with get show ?thesis by (simp add: run_db)
  next
    case False
    with assms show ?thesis
      by (simp add: run_get_pending sync_photo_skip get)
  qed
  from same have mem: "p \<in> set (db (syncPendingPhotos e s))" by (rule store_get_mem)
  have "store_ok (db (syncPendingPhotos e s))" using assms(1) by (rule run_ok)
  with same assms(3) have
    "\<forall>e'. \<not> fails e' GetPendingPhotos \<longrightarrow>
       (\<exists>ps. getPendingPhotos e' (db (syncPendingPhotos e s)) = Inr ps \<and> p \<in> set ps)"
    by (blast intro: in_pending)
  with quiet same mem show ?thesis by blast
qed

theorem retry_ceiling_witness:
  "store_ok [pending_photo ''p1'' 0, pending_photo ''p2'' 6, pending_photo ''p3'' 2]
   \<and> pending_photo ''p2'' 6 \<in> set [pending_photo ''p1'' 0, pending_photo ''p2'' 6, pending_photo ''p3'' 2]
   \<and> \<not> synced (pending_photo ''p2'' 6)
   \<and> MAX_RETRY_COUNT < retries (pending_photo ''p2'' 6)
   \<and> \<not> fails online GetPendingPhotos
   \<and> filter (\<lambda>ev. about ''p2'' (fst ev)) (log (syncPendingPhotos online
          [pending_photo ''p1'' 0, pending_photo ''p2'' 6, pending_photo ''p3'' 2])) = []
   \<and> store_get ''p2'' (db (syncPendingPhotos online
          [pending_photo ''p1'' 0, pending_photo ''p2'' 6, pending_photo ''p3'' 2]))
       = Some (pending_photo ''p2'' 6)
   \<and> (\<exists>ps. getPendingPhotos online (db (syncPendingPhotos online
          [pending_photo ''p1'' 0, pending_photo ''p2'' 6, pending_photo ''p3'' 2])) = Inr ps
         \<and> pending_photo ''p2'' 6 \<in> set ps)"
proof -
  let ?s = "[pending_photo ''p1'' 0, pending_photo ''p2'' 6, pending_photo ''p3'' 2]"
  have ok: "store_ok ?s" by (simp add: store_ok_def pending_photo_def)
  have mem: "pending_photo ''p2'' 6 \<in> set ?s" by simp
  have un: "\<not> synced (pending_photo ''p2'' 6)" by (simp add: pending_photo_def)
  have over: "MAX_RETRY_COUNT < retries (pending_photo ''p2'' 6)"
    by (simp add: pending_photo_def MAX_RETRY_COUNT_def)
  have up: "\<not> fails online GetPendingPhotos" by (simp add: online_def)
  have k: "photo_id (pending_photo ''p2'' 6) = ''p2''" by (simp add: pending_photo_def)
  from retry_ceiling [OF ok mem un over, of online] up
  have "filter (\<lambda>ev. about ''p2'' (fst ev)) (log (syncPendingPhotos online ?s)) = []
       \<and> store_get ''p2'' (db (syncPendingPhotos online ?s)) = Some (pending_photo ''p2'' 6)
       \<and> (\<exists>ps. getPendingPhotos online (db (syncPendingPhotos online ?s)) = Inr ps
             \<and> pending_photo ''p2'' 6 \<in> set ps)"
    unfolding k filter_empty_conv by auto
  with ok mem un over up show ?thesis by blast
qed

subsection \<open>Marking after the upload and the metadata write\<close>

lemma sync_photo_logs:
  "snd (sync_photo e photo s) \<in>
     { [],
       [(IncrementRetry (photo_id photo), False)],
       [(IncrementRetry (photo_id photo), True), (Fetch (dataUrl photo), False)],
       [(IncrementRetry (photo_id photo), True), (Fetch (dataUrl photo), True),
        (Upload (photo_id photo @ ''.png'') True, False)],
       [(IncrementRetry (photo_id photo), True), (Fetch (dataUrl photo), True),
        (Upload (photo_id photo @ ''.png'') True, True), (Upsert (row_of e photo), False)],
       [(IncrementRetry (photo_id photo), True), (Fetch (dataUrl photo), True),
        (Upload (photo_id photo @ ''.png'') True, True), (Upsert (row_of e photo), True),
        (MarkSynced (photo_id photo) (photo_id photo),
         \<not> fails e (MarkSynced (photo_id photo) (photo_id photo)))] }"
  by (simp add: sync_photo_def Let_def markSynced_result incrementRetry_result)

lemma sync_photo_mark_last:
  assumes "snd (sync_photo e photo s) = pre @ (MarkSynced k sid, ok) # post"
  shows "pre = [(IncrementRetry (photo_id photo), True), (Fetch (dataUrl photo), True),
                (Upload (photo_id photo @ ''.png'') True, True), (Upsert (row_of e photo), True)]
         \<and> post = [] \<and> k = photo_id photo \<and> sid = photo_id photo
         \<and> ok = (\<not> fails e (MarkSynced (photo_id photo) (photo_id photo)))"
  using sync_photo_logs [of e photo s] unfolding assms
  by (auto simp: append_eq_Cons_conv Cons_eq_append_conv)

lemma sync_photo_flags_kept:
  assumes "fails e (Upload (photo_id photo @ ''.png'') True) \<or> fails e (Upsert (row_of e photo))"
  shows "map_option synced (store_get j (fst (sync_photo e photo s))) = map_option synced (store_get j s)"
proof (cases "j = photo_id photo")
  case True
  with assms show ?thesis
    by (auto simp: sync_photo_get_self option.map_comp comp_def)
next
  case False
  then show ?thesis by (simp add: sync_photo_get_other)
qed

lemma run_unsynced_kept:
  assumes "store_ok s" and "p \<in> set s" and "\<not> synced p"
    and "fails e (Upload (photo_id p @ ''.png'') True) \<or> fails e (Upsert (row_of e p))"
  shows "\<exists>p'. store_get (photo_id p) (db (syncPendingPhotos e s)) = Some p' \<and> \<not> synced p'"
proof -
  have get: "store_get (photo_id p) s = Some p"
    using assms(1,2) by (rule store_get_of_mem)
  show ?thesis
  proof (cases "fails e GetPendingPhotos")
    case True
    with get assms(3) show ?thesis by (simp add: run_db)
  next
    case False
    have "store_get (photo_id p) (db (syncPendingPhotos e s))
            = store_get (photo_id p) (fst (sync_photo e p s))"
      using assms(1-3) False by (rule run_get_pending)
    moreover have "map_option synced (store_get (photo_id p) (fst (sync_photo e p s)))
            = Some False"
      using sync_photo_flags_kept [OF assms(4), of "photo_id p" s] get assms(3) by simp
    ultimately show ?thesis by auto
  qed
qed

lemma sync_photo_upsert_after_upload:
  assumes "snd (sync_photo e photo s) = pre @ (Upsert row, ok) # post"
  shows "(Upload (photo_id photo @ ''.png'') True, True) \<in> set pre \<and> row = row_of e photo"
  using sync_photo_logs [of e photo s] unfolding assms
  by (auto simp: append_eq_Cons_conv Cons_eq_append_conv)

lemma sync_photo_upload_again:
  assumes "\<not> MAX_RETRY_COUNT < retries q" and "\<not> fails e (IncrementRetry (photo_id q))"
    and "\<not> fails e (Fetch (dataUrl q))"
  shows "(Upload (photo_id q @ ''.png'') True, \<not> fails e (Upload (photo_id q @ ''.png'') True))
           \<in> set (snd (sync_photo e q s))"
  using assms by (simp add: sync_photo_def Let_def markSynced_result incrementRetry_result)

lemma run_upload_again:
  assumes "store_ok s" and "store_get k s = Some q" and "\<not> synced q"
    and "\<not> fails e GetPendingPhotos" and "\<not> fails e (IncrementRetry k)"
    and "\<not> fails e (Fetch (dataUrl q))" and "retries q \<le> MAX_RETRY_COUNT"
  shows "(Upload (k @ ''.png'') True, \<not> fails e (Upload (k @ ''.png'') True))
           \<in> set (log (syncPendingPhotos e s))"
proof -
  from assms(2) have k: "photo_id q = k" and mem: "q \<in> set s"
    by (rule store_get_key, rule store_get_mem)
  have "(Upload (photo_id q @ ''.png'') True, \<not> fails e (Upload (photo_id q @ ''.png'') True))
           \<in> set (snd (sync_photo e q []))"
    using assms(5-7) unfolding k [symmetric] by (intro sync_photo_upload_again) simp_all
  with mem assms(3,4) have "(Upload (photo_id q @ ''.png'') True,
      \<not> fails e (Upload (photo_id q @ ''.png'') True)) \<in> set (log (syncPendingPhotos e s))"
    by (auto simp: run_log sync_loop_log)
  then show ?thesis unfolding k .
qed

text \<open>
  Claim C2. In the step of a sync run for one pending record, a call of \<open>markSynced\<close>
  comes after a successful upload of the record's object and a successful upsert of its
  metadata row, and is the last call of the step. If the upload or the metadata write
  fails, the step makes no call of \<open>markSynced\<close> and changes no \<open>synced\<close> flag in the
  store; after the whole run the record is still stored with \<open>synced = false\<close>, and
  \<open>getPendingPhotos\<close> hands it to the next run. That run, as long as the record is
  not above the retry ceiling and its increment and fetch go through, uploads the
  object again; and a metadata write only ever follows a successful upload of the same
  step, so that a retry redoes the pair.
\<close>

theorem markSynced_after_both:
  "(\<forall>pre post k sid ok.
       snd (sync_photo e photo s) = pre @ (MarkSynced k sid, ok) # post \<longrightarrow>
         (Upload (photo_id photo @ ''.png'') True, True) \<in> set pre
       \<and> (Upsert (row_of e photo), True) \<in> set pre
       \<and> k = photo_id photo \<and> post = [])
   \<and> (\<forall>pre post row ok.
       snd (sync_photo e photo s) = pre @ (Upsert row, ok) # post \<longrightarrow>
         (Upload (photo_id photo @ ''.png'') True, True) \<in> set pre)
   \<and> (fails e (Upload (photo_id photo @ ''.png'') True) \<or> fails e (Upsert (row_of e photo)) \<longrightarrow>
         (\<forall>k sid ok. (MarkSynced k sid, ok) \<notin> set (snd (sync_photo e photo s)))
       \<and> (\<forall>j. map_option synced (store_get j (fst (sync_photo e photo s)))
               = map_option synced (store_get j s)))
   \<and> (store_ok s \<and> p \<in> set s \<and> \<not> synced p
        \<and> (fails e (Upload (photo_id p @ ''.png'') True) \<or> fails e (Upsert (row_of e p))) \<longrightarrow>
         (\<exists>p'. store_get (photo_id p) (db (syncPendingPhotos e s)) = Some p' \<and> \<not> synced p'
            \<and> (\<forall>e'. \<not> fails e' GetPendingPhotos \<longrightarrow>
                  (\<exists>ps. getPendingPhotos e' (db (syncPendingPhotos e s)) = Inr ps \<and> p' \<in> set ps))
            \<and> (\<forall>e'. \<not> fails e' GetPendingPhotos \<and> \<not> fails e' (IncrementRetry (photo_id p))
                    \<and> \<not> fails e' (Fetch (dataUrl p')) \<and> retries p' \<le> MAX_RETRY_COUNT \<longrightarrow>
                  (Upload (photo_id p @ ''.png'') True, \<not> fails e' (Upload (photo_id p @ ''.png'') True))
                    \<in> set (log (syncPendingPhotos e' (db (syncPendingPhotos e s)))))))"
proof (intro conjI allI impI)
  fix pre post k sid ok
  assume split: "snd (sync_photo e photo s) = pre @ (MarkSynced k sid, ok) # post"
  from sync_photo_mark_last [OF split]
  show "(Upload (photo_id photo @ ''.png'') True, True) \<in> set pre"
    and "(Upsert (row_of e photo), True) \<in> set pre"
    and "k = photo_id photo" and "post = []"
    by simp_all
next
  fix pre post row ok
  assume "snd (sync_photo e photo s) = pre @ (Upsert row, ok) # post"
  then show "(Upload (photo_id photo @ ''.png'') True, True) \<in> set pre"
    by (simp add: sync_photo_upsert_after_upload)
next
  fix k sid ok
  assume bad: "fails e (Upload (photo_id photo @ ''.png'') True) \<or> fails e (Upsert (row_of e photo))"
  then show "(MarkSynced k sid, ok) \<notin> set (snd (sync_photo e photo s))"
    by (auto simp: sync_photo_def Let_def markSynced_result incrementRetry_result)
next
  fix j
  assume "fails e (Upload (photo_id photo @ ''.png'') True) \<or> fails e (Upsert (row_of e photo))"
  then show "map_option synced (store_get j (fst (sync_photo e photo s)))
               = map_option synced (store_get j s)"
    by (rule sync_photo_flags_kept)
next
  assume h: "store_ok s \<and> p \<in> set s \<and> \<not> synced p
        \<and> (fails e (Upload (photo_id p @ ''.png'') True) \<or> fails e (Upsert (row_of e p)))"
  then obtain p' where p': "store_get (photo_id p) (db (syncPendingPhotos e s)) = Some p'"
    and un: "\<not> synced p'"
    using run_unsynced_kept [of s p e] by blast
  from h have ok': "store_ok (db (syncPendingPhotos e s))" by (simp add: run_ok)
  with p' un have listed: "\<forall>e'. \<not> fails e' GetPendingPhotos \<longrightarrow>
      (\<exists>ps. getPendingPhotos e' (db (syncPendingPhotos e s)) = Inr ps \<and> p' \<in> set ps)"
    by (blast intro: in_pending)
  have again: "\<forall>e'. \<not> fails e' GetPendingPhotos \<and> \<not> fails e' (IncrementRetry (photo_id p))
                    \<and> \<not> fails e' (Fetch (dataUrl p')) \<and> retries p' \<le> MAX_RETRY_COUNT \<longrightarrow>
                  (Upload (photo_id p @ ''.png'') True, \<not> fails e' (Upload (photo_id p @ ''.png'') True))
                    \<in> set (log (syncPendingPhotos e' (db (syncPendingPhotos e s))))"
    using run_upload_again [OF ok' p' un] by blast
  from p' un listed again
  show "\<exists>p'. store_get (photo_id p) (db (syncPendingPhotos e s)) = Some p' \<and> \<not> synced p'
            \<and> (\<forall>e'. \<not> fails e' GetPendingPhotos \<longrightarrow>
                  (\<exists>ps. getPendingPhotos e' (db (syncPendingPhotos e s)) = Inr ps \<and> p' \<in> set ps))
            \<and> (\<forall>e'. \<not> fails e' GetPendingPhotos \<and> \<not> fails e' (IncrementRetry (photo_id p))
                    \<and> \<not> fails e' (Fetch (dataUrl p')) \<and> retries p' \<le> MAX_RETRY_COUNT \<longrightarrow>
                  (Upload (photo_id p @ ''.png'') True, \<not> fails e' (Upload (photo_id p @ ''.png'') True))
                    \<in> set (log (syncPendingPhotos e' (db (syncPendingPhotos e s)))))"
    by blast
qed

theorem markSynced_after_both_witness:
  "snd (sync_photo online (pending_photo ''p1'' 0) [pending_photo ''p1'' 0, pending_photo ''p2'' 1])
     = [(IncrementRetry ''p1'', True), (Fetch ''data:image/png;base64,p1'', True),
        (Upload ''p1.png'' True, True), (Upsert (row_of online (pending_photo ''p1'' 0)), True)]
       @ (MarkSynced ''p1'' ''p1'', True) # []
   \<and> (Upload ''p1.png'' True, True)
        \<in> set [(IncrementRetry ''p1'', True), (Fetch ''data:image/png;base64,p1'', True),
              (Upload ''p1.png'' True, True), (Upsert (row_of online (pending_photo ''p1'' 0)), True)]
   \<and> store_ok [pending_photo ''p1'' 0, pending_photo ''p2'' 1]
   \<and> pending_photo ''p2'' 1 \<in> set [pending_photo ''p1'' 0, pending_photo ''p2'' 1]
   \<and> \<not> synced (pending_photo ''p2'' 1)
   \<and> \<not> fails (failing [Upsert (row_of online (pending_photo ''p2'' 1))]) (Upload ''p2.png'' True)
   \<and> fails (failing [Upsert (row_of online (pending_photo ''p2'' 1))])
        (Upsert (row_of (failing [Upsert (row_of online (pending_photo ''p2'' 1))]) (pending_photo ''p2'' 1)))
   \<and> (\<forall>k sid ok. (MarkSynced k sid, ok)
          \<notin> set (snd (sync_photo (failing [Upsert (row_of online (pending_photo ''p2'' 1))])
                   (pending_photo ''p2'' 1) [pending_photo ''p1'' 0, pending_photo ''p2'' 1])))
   \<and> (\<exists>p'. store_get ''p2'' (db (syncPendingPhotos (failing [Upsert (row_of online (pending_photo ''p2'' 1))])
                  [pending_photo ''p1'' 0, pending_photo ''p2'' 1])) = Some p' \<and> \<not> synced p')
   \<and> db (syncPendingPhotos (failing [Upsert (row_of online (pending_photo ''p2'' 1))])
         [pending_photo ''p1'' 0, pending_photo ''p2'' 1])
       = [(pending_photo ''p1'' 1)\<lparr>synced := True, supabaseId := Some ''p1''\<rparr>, pending_photo ''p2'' 2]
   \<and> log (syncPendingPhotos online
         [(pending_photo ''p1'' 1)\<lparr>synced := True, supabaseId := Some ''p1''\<rparr>, pending_photo ''p2'' 2])
       = [(GetPendingPhotos, True), (IncrementRetry ''p2'', True),
          (Fetch ''data:image/png;base64,p2'', True), (Upload ''p2.png'' True, True),
          (Upsert (row_of online (pending_photo ''p2'' 1)), True), (MarkSynced ''p2'' ''p2'', True)]
   \<and> db (syncPendingPhotos online
         [(pending_photo ''p1'' 1)\<lparr>synced := True, supabaseId := Some ''p1''\<rparr>, pending_photo ''p2'' 2])
       = [(pending_photo ''p1'' 1)\<lparr>synced := True, supabaseId := Some ''p1''\<rparr>,
          (pending_photo ''p2'' 3)\<lparr>synced := True, supabaseId := Some ''p2''\<rparr>]"
proof -
  let ?p1 = "pending_photo ''p1'' 0" and ?p2 = "pending_photo ''p2'' 1"
  let ?s = "[?p1, ?p2]"
  let ?e = "failing [Upsert (row_of online ?p2)]"
  let ?pre = "[(IncrementRetry ''p1'', True), (Fetch ''data:image/png;base64,p1'', True),
        (Upload ''p1.png'' True, True), (Upsert (row_of online ?p1), True)]"
  have split: "snd (sync_photo online ?p1 ?s) = ?pre @ (MarkSynced ''p1'' ''p1'', True) # []"
    by (simp add: sync_photo_def markSynced_def incrementRetry_def Let_def pending_photo_def
        online_def MAX_RETRY_COUNT_def)
  have ok: "store_ok ?s" by (simp add: store_ok_def pending_photo_def)
  have mem: "?p2 \<in> set ?s" by simp
  have un: "\<not> synced ?p2" by (simp add: pending_photo_def)
  have up: "\<not> fails ?e (Upload ''p2.png'' True)" by (simp add: failing_def)
  have bad: "fails ?e (Upsert (row_of ?e ?p2))" by (simp add: failing_def)
  have k: "photo_id ?p2 = ''p2''" by (simp add: pending_photo_def)
  have final: "db (syncPendingPhotos ?e ?s)
       = [(pending_photo ''p1'' 1)\<lparr>synced := True, supabaseId := Some ''p1''\<rparr>, pending_photo ''p2'' 2]"
    by (simp add: syncPendingPhotos_def getPendingPhotos_def sync_photo_def markSynced_def
        incrementRetry_def Let_def pending_photo_def online_def failing_def MAX_RETRY_COUNT_def)
  from markSynced_after_both [of online ?p1 ?s ?p1] split
  have first: "(Upload ''p1.png'' True, True) \<in> set ?pre"
    unfolding pending_photo_def by simp
  from markSynced_after_both [of ?e ?p2 ?s ?p2] ok mem un bad
  have "(\<forall>k sid ok. (MarkSynced k sid, ok) \<notin> set (snd (sync_photo ?e ?p2 ?s)))
      \<and> (\<exists>p'. store_get ''p2'' (db (syncPendingPhotos ?e ?s)) = Some p' \<and> \<not> synced p')"
    unfolding k by blast
  moreover
  have "log (syncPendingPhotos online
         [(pending_photo ''p1'' 1)\<lparr>synced := True, supabaseId := Some ''p1''\<rparr>, pending_photo ''p2'' 2])
       = [(GetPendingPhotos, True), (IncrementRetry ''p2'', True),
          (Fetch ''data:image/png;base64,p2'', True), (Upload ''p2.png'' True, True),
          (Upsert (row_of online (pending_photo ''p2'' 1)), True), (MarkSynced ''p2'' ''p2'', True)]"
    by (simp add: syncPendingPhotos_def getPendingPhotos_def sync_photo_def markSynced_def
        incrementRetry_def Let_def pending_photo_def online_def MAX_RETRY_COUNT_def)
  moreover
  have "db (syncPendingPhotos online
         [(pending_photo ''p1'' 1)\<lparr>synced := True, supabaseId := Some ''p1''\<rparr>, pending_photo ''p2'' 2])
       = [(pending_photo ''p1'' 1)\<lparr>synced := True, supabaseId := Some ''p1''\<rparr>,
          (pending_photo ''p2'' 3)\<lparr>synced := True, supabaseId := Some ''p2''\<rparr>]"
    by (simp add: syncPendingPhotos_def getPendingPhotos_def sync_photo_def markSynced_def
        incrementRetry_def Let_def pending_photo_def online_def MAX_RETRY_COUNT_def)
  moreover note split first ok mem un up bad final
  ultimately show ?thesis by blast
qed

subsection \<open>A failure does not stop the run\<close>

text \<open>
  Claim C5. In one sync run whose reading of the pending list succeeds, every pending
  record below the retry ceiling whose retry increment goes through gets its own
  attempt, whatever happens to the records before it: its retry count is incremented by
  exactly 1, and it ends with \<open>synced = true\<close> and its remote identifier if its
  fetch, upload, metadata write and marking all succeed, and with \<open>synced = false\<close>
  otherwise. The run itself resolves. For three pending records of which the second
  one's upload fails, the first and the third end synced with a remote identifier and
  the second unsynced with its count incremented by 1.
\<close>

theorem failure_does_not_abort_run:
  assumes "store_ok s" and "p \<in> set s" and "\<not> synced p" and "retries p \<le> MAX_RETRY_COUNT"
    and "\<not> fails e GetPendingPhotos" and "\<not> fails e (IncrementRetry (photo_id p))"
  shows "result (syncPendingPhotos e s) = Inr ()
       \<and> store_get (photo_id p) (db (syncPendingPhotos e s))
           = Some (if fails e (Fetch (dataUrl p))
                     \<or> fails e (Upload (photo_id p @ ''.png'') True)
                     \<or> fails e (Upsert (row_of e p))
                     \<or> fails e (MarkSynced (photo_id p) (photo_id p))
                   then p\<lparr>retries := retries p + 1\<rparr>
                   else p\<lparr>retries := retries p + 1, synced := True,
                          supabaseId := Some (photo_id p)\<rparr>)"
proof -
  have get: "store_get (photo_id p) s = Some p"
    using assms(1,2) by (rule store_get_of_mem)
  have "store_get (photo_id p) (db (syncPendingPhotos e s))
          = store_get (photo_id p) (fst (sync_photo e p s))"
    using assms(1,2,3,5) by (rule run_get_pending)
  with assms(4,5,6) get show ?thesis
    by (simp add: sync_photo_get_self run_result)
qed

theorem failure_does_not_abort_run_witness:
  "store_ok [pending_photo ''p1'' 0, pending_photo ''p2'' 0, pending_photo ''p3'' 0]
   \<and> \<not> fails (failing [Upload ''p2.png'' True]) GetPendingPhotos
   \<and> result (syncPendingPhotos (failing [Upload ''p2.png'' True])
        [pending_photo ''p1'' 0, pending_photo ''p2'' 0, pending_photo ''p3'' 0]) = Inr ()
   \<and> store_get ''p1'' (db (syncPendingPhotos (failing [Upload ''p2.png'' True])
        [pending_photo ''p1'' 0, pending_photo ''p2'' 0, pending_photo ''p3'' 0]))
       = Some ((pending_photo ''p1'' 1)\<lparr>synced := True, supabaseId := Some ''p1''\<rparr>)
   \<and> store_get ''p2'' (db (syncPendingPhotos (failing [Upload ''p2.png'' True])
        [pending_photo ''p1'' 0, pending_photo ''p2'' 0, pending_photo ''p3'' 0]))
       = Some (pending_photo ''p2'' 1)
   \<and> store_get ''p3'' (db (syncPendingPhotos (failing [Upload ''p2.png'' True])
        [pending_photo ''p1'' 0, pending_photo ''p2'' 0, pending_photo ''p3'' 0]))
       = Some ((pending_photo ''p3'' 1)\<lparr>synced := True, supabaseId := Some ''p3''\<rparr>)
   \<and> db (syncPendingPhotos (failing [Upload ''p2.png'' True])
        [pending_photo ''p1'' 0, pending_photo ''p2'' 0, pending_photo ''p3'' 0])
       = [(pending_photo ''p1'' 1)\<lparr>synced := True, supabaseId := Some ''p1''\<rparr>,
          pending_photo ''p2'' 1,
          (pending_photo ''p3'' 1)\<lparr>synced := True, supabaseId := Some ''p3''\<rparr>]"
proof -
  let ?s = "[pending_photo ''p1'' 0, pending_photo ''p2'' 0, pending_photo ''p3'' 0]"
  let ?e = "failing [Upload ''p2.png'' True]"
  have ok: "store_ok ?s" by (simp add: store_ok_def pending_photo_def)
  have list: "\<not> fails ?e GetPendingPhotos" by (simp add: failing_def)
  have hyp: "pending_photo k 0 \<in> set ?s \<Longrightarrow> \<not> synced (pending_photo k 0)
      \<and> retries (pending_photo k 0) \<le> MAX_RETRY_COUNT
      \<and> \<not> fails ?e (IncrementRetry (photo_id (pending_photo k 0)))" for k
    by (simp add: pending_photo_def MAX_RETRY_COUNT_def failing_def)
  have one: "store_get ''p1'' (db (syncPendingPhotos ?e ?s))
       = Some ((pending_photo ''p1'' 1)\<lparr>synced := True, supabaseId := Some ''p1''\<rparr>)"
    using failure_does_not_abort_run [of ?s "pending_photo ''p1'' 0" ?e] ok list hyp [of "''p1''"]
    by (simp add: pending_photo_def failing_def online_def)
  have two: "result (syncPendingPhotos ?e ?s) = Inr ()
     \<and> store_get ''p2'' (db (syncPendingPhotos ?e ?s)) = Some (pending_photo ''p2'' 1)"
    using failure_does_not_abort_run [of ?s "pending_photo ''p2'' 0" ?e] ok list hyp [of "''p2''"]
    by (simp add: pending_photo_def failing_def online_def)
  have three: "store_get ''p3'' (db (syncPendingPhotos ?e ?s))
       = Some ((pending_photo ''p3'' 1)\<lparr>synced := True, supabaseId := Some ''p3''\<rparr>)"
    using failure_does_not_abort_run [of ?s "pending_photo ''p3'' 0" ?e] ok list hyp [of "''p3''"]
    by (simp add: pending_photo_def failing_def online_def)
  have final: "db (syncPendingPhotos ?e ?s)
       = [(pending_photo ''p1'' 1)\<lparr>synced := True, supabaseId := Some ''p1''\<rparr>,
          pending_photo ''p2'' 1,
          (pending_photo ''p3'' 1)\<lparr>synced := True, supabaseId := Some ''p3''\<rparr>]"
    by (simp add: syncPendingPhotos_def getPendingPhotos_def sync_photo_def markSynced_def
        incrementRetry_def Let_def pending_photo_def online_def failing_def MAX_RETRY_COUNT_def)
  from ok list one two three final show ?thesis by blast
qed

section \<open>Properties of the capture path\<close>

lemma filter_key:
  "store_ok s \<Longrightarrow>
   filter (\<lambda>q. photo_id q = k) s = (case store_get k s of None \<Rightarrow> [] | Some p \<Rightarrow> [p])"
proof (induction s)
  case Nil
  then show ?case by simp
next
  case (Cons q qs)
  show ?case
  proof (cases "photo_id q = k")
    case True
    with Cons.prems have "\<forall>r \<in> set qs. photo_id r \<noteq> k"
      by (auto simp: store_ok_Cons)
    then have "filter (\<lambda>q. photo_id q = k) qs = []" by (simp add: filter_empty_conv)
    with True show ?thesis by simp
  next
    case False
    with Cons show ?thesis by (simp add: store_ok_Cons)
  qed
qed

lemma shareCreate_log_head:
  "\<exists>rest. log (shareCreate e new_id now url w h l s)
     = (SavePhoto (new_photo new_id now url w h l), \<not> fails e (SavePhoto (new_photo new_id now url w h l))) # rest
     \<and> (fails e (SavePhoto (new_photo new_id now url w h l)) \<longrightarrow> rest = [])"
  by (simp add: shareCreate_def savePhoto_def markSynced_result Let_def)

lemma shareCreate_result:
  "result (shareCreate e new_id now url w h l s) =
     (if fails e (SavePhoto (new_photo new_id now url w h l)) then Inl StorageError
      else if fails e (Fetch url) \<or> fails e (Upload (new_id @ ''.png'') False)
            \<or> fails e (Insert (new_row e new_id w h l)) \<or> fails e (MarkSynced new_id new_id)
      then Inl OfflineError else Inr new_id)"
  by (simp add: shareCreate_def savePhoto_def markSynced_result Let_def)

lemma shareCreate_db:
  "db (shareCreate e new_id now url w h l s) =
     (if fails e (SavePhoto (new_photo new_id now url w h l)) then s
      else if fails e (Fetch url) \<or> fails e (Upload (new_id @ ''.png'') False)
            \<or> fails e (Insert (new_row e new_id w h l)) \<or> fails e (MarkSynced new_id new_id)
      then store_put (new_photo new_id now url w h l) s
      else store_put ((new_photo new_id now url w h l)\<lparr>synced := True, supabaseId := Some new_id\<rparr>)
             (store_put (new_photo new_id now url w h l) s))"
  by (simp add: shareCreate_def savePhoto_def markSynced_result Let_def store_get_put)

lemma shareCreate_ok: "store_ok s \<Longrightarrow> store_ok (db (shareCreate e new_id now url w h l s))"
  by (simp add: shareCreate_db store_ok_put)

text \<open>
  Claim C1, as stated, at an input: the store is empty, the capture is given the
  identifier \<open>abcdefghij\<close>, and the upload of \<open>abcdefghij.png\<close> fails. The promise
  of \<open>shareCreate\<close> is rejected with the offline error; the identifier is not returned.
\<close>

theorem shareCreate_offline_counterexample:
  "result (shareCreate (failing [Upload ''abcdefghij.png'' False]) ''abcdefghij'' 1765324800000
             ''data:image/png;base64,AAAA'' (Some 1240) (Some 1748) None [])
     = Inl OfflineError
   \<and> result (shareCreate (failing [Upload ''abcdefghij.png'' False]) ''abcdefghij'' 1765324800000
             ''data:image/png;base64,AAAA'' (Some 1240) (Some 1748) None [])
     \<noteq> Inr ''abcdefghij''"
  by (simp add: shareCreate_result failing_def online_def)

text \<open>
  Claim C1, amended. The first call of \<open>shareCreate\<close> is \<open>savePhoto\<close> of the new
  record, which has \<open>synced = false\<close> and \<open>retries = 0\<close>; when that request is rejected
  the promise is rejected with the storage error and nothing else is called. When the
  record is saved and a later step fails (the fetch, the upload, the metadata insert
  or the marking), \<open>shareCreate\<close> throws the offline error instead of returning the
  identifier, and leaves the new record in the store as saved, so that
  \<open>getPendingPhotos\<close> returns it with \<open>retries = 0\<close> (as the only record of that
  identifier in a well-formed store). The identifier is returned exactly when every
  step succeeds.
\<close>

theorem shareCreate_saves_first:
  "(\<exists>rest. log (shareCreate e new_id now url w h l s)
        = (SavePhoto (new_photo new_id now url w h l),
           \<not> fails e (SavePhoto (new_photo new_id now url w h l))) # rest
       \<and> (fails e (SavePhoto (new_photo new_id now url w h l)) \<longrightarrow> rest = []))
   \<and> \<not> synced (new_photo new_id now url w h l) \<and> retries (new_photo new_id now url w h l) = 0
   \<and> (fails e (SavePhoto (new_photo new_id now url w h l)) \<longrightarrow>
         result (shareCreate e new_id now url w h l s) = Inl StorageError
       \<and> db (shareCreate e new_id now url w h l s) = s)
   \<and> (\<not> fails e (SavePhoto (new_photo new_id now url w h l))
        \<and> (fails e (Fetch url) \<or> fails e (Upload (new_id @ ''.png'') False)
            \<or> fails e (Insert (new_row e new_id w h l)) \<or> fails e (MarkSynced new_id new_id)) \<longrightarrow>
         result (shareCreate e new_id now url w h l s) = Inl OfflineError
       \<and> store_get new_id (db (shareCreate e new_id now url w h l s))
           = Some (new_photo new_id now url w h l)
       \<and> (\<forall>e'. \<not> fails e' GetPendingPhotos \<longrightarrow>
             (\<exists>ps. getPendingPhotos e' (db (shareCreate e new_id now url w h l s)) = Inr ps
                \<and> new_photo new_id now url w h l \<in> set ps
                \<and> (store_ok s \<longrightarrow>
                     filter (\<lambda>q. photo_id q = new_id) ps = [new_photo new_id now url w h l]))))
   \<and> (result (shareCreate e new_id now url w h l s) = Inr new_id \<longleftrightarrow>
         \<not> fails e (SavePhoto (new_photo new_id now url w h l)) \<and> \<not> fails e (Fetch url)
       \<and> \<not> fails e (Upload (new_id @ ''.png'') False)
       \<and> \<not> fails e (Insert (new_row e new_id w h l)) \<and> \<not> fails e (MarkSynced new_id new_id))"
proof -
  let ?p = "new_photo new_id now url w h l"
  let ?r = "shareCreate e new_id now url w h l s"
  have queued: "\<exists>ps. getPendingPhotos e' (store_put ?p s) = Inr ps \<and> ?p \<in> set ps
      \<and> (store_ok s \<longrightarrow> filter (\<lambda>q. photo_id q = new_id) ps = [?p])"
    if "\<not> fails e' GetPendingPhotos" for e'
  proof -
    have "filter (\<lambda>q. photo_id q = new_id) (filter (\<lambda>p. \<not> synced p) (store_put ?p s)) = [?p]"
      if "store_ok s"
    proof -
      from that have "store_ok (store_put ?p s)" by (rule store_ok_put)
      then have "filter (\<lambda>q. photo_id q = new_id) (store_put ?p s) = [?p]"
        by (simp add: filter_key store_get_put)
      then have "filter (\<lambda>p. \<not> synced p) (filter (\<lambda>q. photo_id q = new_id) (store_put ?p s)) = [?p]"
        by simp
      then show ?thesis by (simp add: conj_commute)
    qed
    with that show ?thesis
      by (simp add: getPendingPhotos_def put_mem)
  qed
  show ?thesis
    using queued
    by (intro conjI impI shareCreate_log_head)
       (auto simp: shareCreate_result shareCreate_db store_get_put)
qed

theorem shareCreate_saves_first_witness:
  "store_ok [pending_photo ''p1'' 3]
   \<and> \<not> fails (failing [Upload ''abcdefghij.png'' False])
         (SavePhoto (new_photo ''abcdefghij'' 1765324800000 ''data:image/png;base64,AAAA''
            (Some 1240) (Some 1748) None))
   \<and> fails (failing [Upload ''abcdefghij.png'' False]) (Upload (''abcdefghij'' @ ''.png'') False)
   \<and> \<not> fails online GetPendingPhotos
   \<and> result (shareCreate (failing [Upload ''abcdefghij.png'' False]) ''abcdefghij'' 1765324800000
         ''data:image/png;base64,AAAA'' (Some 1240) (Some 1748) None [pending_photo ''p1'' 3])
       = Inl OfflineError
   \<and> store_get ''abcdefghij''
         (db (shareCreate (failing [Upload ''abcdefghij.png'' False]) ''abcdefghij'' 1765324800000
            ''data:image/png;base64,AAAA'' (Some 1240) (Some 1748) None [pending_photo ''p1'' 3]))
       = Some (new_photo ''abcdefghij'' 1765324800000 ''data:image/png;base64,AAAA''
            (Some 1240) (Some 1748) None)
   \<and> (\<exists>ps. getPendingPhotos online
          (db (shareCreate (failing [Upload ''abcdefghij.png'' False]) ''abcdefghij'' 1765324800000
            ''data:image/png;base64,AAAA'' (Some 1240) (Some 1748) None [pending_photo ''p1'' 3]))
          = Inr ps
        \<and> filter (\<lambda>q. photo_id q = ''abcdefghij'') ps
          = [new_photo ''abcdefghij'' 1765324800000 ''data:image/png;base64,AAAA''
               (Some 1240) (Some 1748) None])
   \<and> fails (failing [SavePhoto (new_photo ''abcdefghij'' 1765324800000 ''data:image/png;base64,AAAA''
               (Some 1240) (Some 1748) None)])
         (SavePhoto (new_photo ''abcdefghij'' 1765324800000 ''data:image/png;base64,AAAA''
            (Some 1240) (Some 1748) None))
   \<and> result (shareCreate
         (failing [SavePhoto (new_photo ''abcdefghij'' 1765324800000 ''data:image/png;base64,AAAA''
               (Some 1240) (Some 1748) None)])
         ''abcdefghij'' 1765324800000 ''data:image/png;base64,AAAA'' (Some 1240) (Some 1748) None
         [pending_photo ''p1'' 3])
       = Inl StorageError
   \<and> log (shareCreate
         (failing [SavePhoto (new_photo ''abcdefghij'' 1765324800000 ''data:image/png;base64,AAAA''
               (Some 1240) (Some 1748) None)])
         ''abcdefghij'' 1765324800000 ''data:image/png;base64,AAAA'' (Some 1240) (Some 1748) None
         [pending_photo ''p1'' 3])
       = [(SavePhoto (new_photo ''abcdefghij'' 1765324800000 ''data:image/png;base64,AAAA''
               (Some 1240) (Some 1748) None), False)]
   \<and> store_get ''abcdefghij''
         (db (syncPendingPhotos online
            (db (shareCreate (failing [Upload ''abcdefghij.png'' False]) ''abcdefghij'' 1765324800000
               ''data:image/png;base64,AAAA'' (Some 1240) (Some 1748) None [pending_photo ''p1'' 3]))))
       = Some ((new_photo ''abcdefghij'' 1765324800000 ''data:image/png;base64,AAAA''
                  (Some 1240) (Some 1748) None)
                \<lparr>retries := 1, synced := True, supabaseId := Some ''abcdefghij''\<rparr>)"
proof -
  let ?p = "new_photo ''abcdefghij'' 1765324800000 ''data:image/png;base64,AAAA''
               (Some 1240) (Some 1748) None"
  let ?s = "[pending_photo ''p1'' 3]"
  let ?e = "failing [Upload ''abcdefghij.png'' False]"
  let ?f = "failing [SavePhoto ?p]"
  have ok: "store_ok ?s" by (simp add: store_ok_def)
  have saved: "\<not> fails ?e (SavePhoto ?p)" by (simp add: failing_def)
  have up: "fails ?e (Upload (''abcdefghij'' @ ''.png'') False)" by (simp add: failing_def)
  have list: "\<not> fails online GetPendingPhotos" by (simp add: online_def)
  have full: "fails ?f (SavePhoto ?p)" by (simp add: failing_def)
  note offline = shareCreate_saves_first [of ?e "''abcdefghij''" 1765324800000
      "''data:image/png;base64,AAAA''" "Some 1240" "Some 1748" None ?s]
  note broken = shareCreate_saves_first [of ?f "''abcdefghij''" 1765324800000
      "''data:image/png;base64,AAAA''" "Some 1240" "Some 1748" None ?s]
  from offline saved up
  have a: "result (shareCreate ?e ''abcdefghij'' 1765324800000 ''data:image/png;base64,AAAA''
         (Some 1240) (Some 1748) None ?s) = Inl OfflineError"
    and b: "store_get ''abcdefghij'' (db (shareCreate ?e ''abcdefghij'' 1765324800000
         ''data:image/png;base64,AAAA'' (Some 1240) (Some 1748) None ?s)) = Some ?p"
    by blast+
  from offline saved up list ok
  have c: "\<exists>ps. getPendingPhotos online (db (shareCreate ?e ''abcdefghij'' 1765324800000
         ''data:image/png;base64,AAAA'' (Some 1240) (Some 1748) None ?s)) = Inr ps
        \<and> filter (\<lambda>q. photo_id q = ''abcdefghij'') ps = [?p]"
    by blast
  from broken full
  have d: "result (shareCreate ?f ''abcdefghij'' 1765324800000 ''data:image/png;base64,AAAA''
         (Some 1240) (Some 1748) None ?s) = Inl StorageError"
    by blast
  from broken full
  have e: "log (shareCreate ?f ''abcdefghij'' 1765324800000 ''data:image/png;base64,AAAA''
         (Some 1240) (Some 1748) None ?s) = [(SavePhoto ?p, False)]"
    by auto
  have later: "store_get ''abcdefghij''
         (db (syncPendingPhotos online
            (db (shareCreate ?e ''abcdefghij'' 1765324800000
               ''data:image/png;base64,AAAA'' (Some 1240) (Some 1748) None ?s))))
       = Some (?p\<lparr>retries := 1, synced := True, supabaseId := Some ''abcdefghij''\<rparr>)"
    by (simp add: shareCreate_db failing_def syncPendingPhotos_def getPendingPhotos_def
        sync_photo_def markSynced_def incrementRetry_def Let_def pending_photo_def online_def
        MAX_RETRY_COUNT_def or_int_def or_string_def)
  from ok saved up list full a b c d e later show ?thesis by blast
qed

section \<open>Retry counts\<close>

lemma retries_keptI:
  assumes "store_ok s"
    and "\<And>k p. store_get k s = Some p \<Longrightarrow> \<exists>p'. store_get k s' = Some p' \<and> retries p \<le> retries p'"
  shows "retries_kept s s'"
  unfolding retries_kept_def
proof
  fix p assume "p \<in> set s"
  with assms(1) have "store_get (photo_id p) s = Some p" by (rule store_get_of_mem)
  from assms(2) [OF this] show "case store_get (photo_id p) s' of None \<Rightarrow> False
      | Some p' \<Rightarrow> retries p \<le> retries p'"
    by auto
qed

lemma retries_keptD:
  assumes "retries_kept s s'" and "store_get k s = Some p"
  shows "\<exists>p'. store_get k s' = Some p' \<and> retries p \<le> retries p'"
proof -
  from assms(2) have "p \<in> set s" and "photo_id p = k"
    by (rule store_get_mem, rule store_get_key)
  with assms(1) show ?thesis
    unfolding retries_kept_def by (cases "store_get k s'") force+
qed

lemma retries_kept_refl: "store_ok s \<Longrightarrow> retries_kept s s"
  by (rule retries_keptI) auto

lemma retries_kept_trans:
  assumes "store_ok s" and "retries_kept s s'" and "retries_kept s' s''"
  shows "retries_kept s s''"
proof (rule retries_keptI [OF assms(1)])
  fix k p assume "store_get k s = Some p"
  with assms(2) obtain p' where "store_get k s' = Some p'" and "retries p \<le> retries p'"
    by (blast dest: retries_keptD)
  moreover from this assms(3) obtain p'' where "store_get k s'' = Some p''"
    and "retries p' \<le> retries p''"
    by (blast dest: retries_keptD)
  ultimately show "\<exists>p'. store_get k s'' = Some p' \<and> retries p \<le> retries p'" by auto
qed

lemma markSynced_kept: "store_ok s \<Longrightarrow> markSynced e k sid s = Inr s' \<Longrightarrow> retries_kept s s'"
  by (rule retries_keptI) (auto simp: markSynced_get)

lemma incrementRetry_kept: "store_ok s \<Longrightarrow> incrementRetry e k s = Inr s' \<Longrightarrow> retries_kept s s'"
  by (rule retries_keptI) (auto simp: incrementRetry_get)

lemma savePhoto_kept:
  assumes "store_ok s" and "photo_id q \<notin> photo_id ` set s" and "savePhoto e q s = Inr s'"
  shows "retries_kept s s'"
proof (rule retries_keptI [OF assms(1)])
  fix k p assume get: "store_get k s = Some p"
  then have "k \<in> photo_id ` set s"
    by (metis store_get_None option.distinct(1))
  with assms(2) have "k \<noteq> photo_id q" by blast
  with get assms(3) show "\<exists>p'. store_get k s' = Some p' \<and> retries p \<le> retries p'"
    by (auto simp: savePhoto_def store_get_put split: if_splits)
qed

lemma sync_photo_kept: "store_ok s \<Longrightarrow> retries_kept s (fst (sync_photo e photo s))"
proof (rule retries_keptI)
  fix k p assume "store_ok s" and "store_get k s = Some p"
  then show "\<exists>p'. store_get k (fst (sync_photo e photo s)) = Some p' \<and> retries p \<le> retries p'"
    by (cases "k = photo_id photo") (auto simp: sync_photo_get_self sync_photo_get_other)
qed

lemma sync_loop_kept: "store_ok s \<Longrightarrow> retries_kept s (fst (sync_loop e ps s))"
proof (induction ps arbitrary: s)
  case Nil
  then show ?case by (simp add: retries_kept_refl)
next
  case (Cons q qs)
  have "retries_kept s (fst (sync_photo e q s))" using Cons.prems by (rule sync_photo_kept)
  moreover have "retries_kept (fst (sync_photo e q s)) (fst (sync_loop e qs (fst (sync_photo e q s))))"
    using Cons.prems by (intro Cons.IH sync_photo_ok)
  ultimately show ?case
    unfolding sync_loop_Cons_fst using Cons.prems by (blast intro: retries_kept_trans)
qed

lemma run_kept: "store_ok s \<Longrightarrow> retries_kept s (db (syncPendingPhotos e s))"
  by (simp add: run_db retries_kept_refl sync_loop_kept)

lemma runs_ok: "store_ok s \<Longrightarrow> store_ok (sync_runs es s)"
  by (induction es arbitrary: s) (simp_all add: run_ok)

lemma runs_kept: "store_ok s \<Longrightarrow> retries_kept s (sync_runs es s)"
proof (induction es arbitrary: s)
  case Nil
  then show ?case by (simp add: retries_kept_refl)
next
  case (Cons e es)
  have "retries_kept s (db (syncPendingPhotos e s))" using Cons.prems by (rule run_kept)
  moreover have "retries_kept (db (syncPendingPhotos e s)) (sync_runs es (db (syncPendingPhotos e s)))"
    using Cons.prems by (intro Cons.IH run_ok)
  ultimately show ?case using Cons.prems by (auto intro: retries_kept_trans)
qed

lemma shareCreate_kept:
  assumes "store_ok s" and "new_id \<notin> photo_id ` set s"
  shows "retries_kept s (db (shareCreate e new_id now url w h l s))"
proof (rule retries_keptI [OF assms(1)])
  fix k p assume get: "store_get k s = Some p"
  then have "k \<in> photo_id ` set s"
    by (metis store_get_None option.distinct(1))
  with assms(2) have "k \<noteq> new_id" by auto
  with get show "\<exists>p'. store_get k (db (shareCreate e new_id now url w h l s)) = Some p'
      \<and> retries p \<le> retries p'"
    by (simp add: shareCreate_db store_get_put)
qed

lemma sync_photo_increment_first:
  assumes "(c, ok) \<in> set (snd (sync_photo e photo s))" and "is_remote c \<or> (\<exists>u. c = Fetch u)"
  shows "(\<exists>rest. snd (sync_photo e photo s) = (IncrementRetry (photo_id photo), True) # rest
            \<and> (\<forall>k ok'. (IncrementRetry k, ok') \<notin> set rest))
       \<and> map_option retries (store_get (photo_id photo) (fst (sync_photo e photo s)))
           = map_option (\<lambda>item. retries item + 1) (store_get (photo_id photo) s)"
proof -
  from assms have att: "\<not> MAX_RETRY_COUNT < retries photo"
    and inc: "\<not> fails e (IncrementRetry (photo_id photo))"
    by (auto simp: sync_photo_def Let_def markSynced_result incrementRetry_result
        split: if_splits)
  then have "\<exists>rest. snd (sync_photo e photo s) = (IncrementRetry (photo_id photo), True) # rest
            \<and> (\<forall>k ok'. (IncrementRetry k, ok') \<notin> set rest)"
    by (simp add: sync_photo_def Let_def markSynced_result incrementRetry_result)
  moreover from att inc
  have "map_option retries (store_get (photo_id photo) (fst (sync_photo e photo s)))
           = map_option (\<lambda>item. retries item + 1) (store_get (photo_id photo) s)"
    by (simp add: sync_photo_get_self option.map_comp comp_def)
  ultimately show ?thesis by blast
qed

lemma run_failing_step:
  assumes "store_ok s" and "store_get k s = Some p" and "\<not> synced p"
    and "\<not> fails e GetPendingPhotos" and "\<not> fails e (IncrementRetry k)"
    and "fails e (Upload (k @ ''.png'') True)"
  shows "store_get k (db (syncPendingPhotos e s))
           = Some (p\<lparr>retries := (if MAX_RETRY_COUNT < retries p then retries p else retries p + 1)\<rparr>)"
proof -
  from assms(2) have k: "photo_id p = k" and mem: "p \<in> set s"
    by (rule store_get_key, rule store_get_mem)
  have "store_get (photo_id p) (db (syncPendingPhotos e s))
          = store_get (photo_id p) (fst (sync_photo e p s))"
    using assms(1) mem assms(3,4) by (rule run_get_pending)
  with assms sync_photo_get_self [of p e s] show ?thesis
    unfolding k by simp
qed

lemma runs_failing:
  assumes "store_ok s" and "store_get k s = Some p" and "\<not> synced p"
    and "\<forall>e \<in> set es. \<not> fails e GetPendingPhotos \<and> \<not> fails e (IncrementRetry k)
           \<and> fails e (Upload (k @ ''.png'') True)"
  shows "store_get k (sync_runs es s)
           = Some (p\<lparr>retries := (if MAX_RETRY_COUNT < retries p then retries p
                                 else min (retries p + int (length es)) (MAX_RETRY_COUNT + 1))\<rparr>)"
  using assms
proof (induction es arbitrary: s p)
  case Nil
  then show ?case by (simp add: MAX_RETRY_COUNT_def)
next
  case (Cons e es)
  let ?p1 = "p\<lparr>retries := (if MAX_RETRY_COUNT < retries p then retries p else retries p + 1)\<rparr>"
  let ?s1 = "db (syncPendingPhotos e s)"
  from Cons.prems have step: "store_get k ?s1 = Some ?p1"
    by (intro run_failing_step) simp_all
  have "store_get k (sync_runs es ?s1)
          = Some (?p1\<lparr>retries := (if MAX_RETRY_COUNT < retries ?p1 then retries ?p1
                                 else min (retries ?p1 + int (length es)) (MAX_RETRY_COUNT + 1))\<rparr>)"
    using Cons.prems by (intro Cons.IH run_ok step) simp_all
  then show ?case by (auto simp: MAX_RETRY_COUNT_def)
qed

lemma sync_photo_increments_other:
  "k \<noteq> photo_id q \<Longrightarrow> filter (\<lambda>ev. fst ev = IncrementRetry k) (snd (sync_photo e q s)) = []"
  by (auto simp: sync_photo_def Let_def markSynced_result incrementRetry_result)

lemma sync_photo_increments_once:
  "length (filter (\<lambda>ev. fst ev = IncrementRetry k) (snd (sync_photo e q s))) \<le> 1"
  by (simp add: sync_photo_def Let_def markSynced_result incrementRetry_result)

lemma sync_loop_increments_none:
  "k \<notin> photo_id ` set ps \<Longrightarrow>
   filter (\<lambda>ev. fst ev = IncrementRetry k) (snd (sync_loop e ps s)) = []"
  by (induction ps arbitrary: s)
     (simp_all add: sync_loop_Cons_snd sync_photo_increments_other del: sync_loop.simps(2))

lemma sync_loop_increments_once:
  "distinct (map photo_id ps) \<Longrightarrow>
   length (filter (\<lambda>ev. fst ev = IncrementRetry k) (snd (sync_loop e ps s))) \<le> 1"
proof (induction ps arbitrary: s)
  case Nil
  then show ?case by simp
next
  case (Cons q qs)
  show ?case
  proof (cases "photo_id q = k")
    case True
    with Cons.prems have "k \<notin> photo_id ` set qs" by auto
    then have "filter (\<lambda>ev. fst ev = IncrementRetry k)
        (snd (sync_loop e qs (fst (sync_photo e q s)))) = []"
      by (rule sync_loop_increments_none)
    then show ?thesis
      unfolding sync_loop_Cons_snd using sync_photo_increments_once [of k e q s] by simp
  next
    case False
    then have "k \<noteq> photo_id q" by blast
    then have "filter (\<lambda>ev. fst ev = IncrementRetry k) (snd (sync_photo e q s)) = []"
      by (rule sync_photo_increments_other)
    moreover from Cons have "length (filter (\<lambda>ev. fst ev = IncrementRetry k)
        (snd (sync_loop e qs (fst (sync_photo e q s))))) \<le> 1"
      by simp
    ultimately show ?thesis unfolding sync_loop_Cons_snd by simp
  qed
qed

lemma run_increments_once:
  "store_ok s \<Longrightarrow>
   length (filter (\<lambda>ev. fst ev = IncrementRetry k) (log (syncPendingPhotos e s))) \<le> 1"
  using sync_loop_increments_once [OF pending_distinct, of s k e s]
  by (simp add: run_log)

text \<open>
  Claim C4. In a well-formed store, \<open>markSynced\<close>, \<open>incrementRetry\<close>, \<open>savePhoto\<close> of
  a record with a new identifier, the capture of a photo under a new identifier, a sync
  run and any sequence of sync runs keep every record with a retry count that is not
  smaller than before. In the step of a run for
  one record, a call to the network (the fetch of the image, the upload, the metadata
  write) is preceded by the one successful \<open>incrementRetry\<close> of the step, which is its
  first call and raises the stored count by exactly 1; a whole run calls
  \<open>incrementRetry\<close> at most once for any one identifier. And for a record that starts at
  count 0, after \<open>N\<close> runs in each of which its upload fails (the store being readable
  and writable), the count is \<open>min N 6\<close>: the cap that the ceiling of 5 gives is 6,
  because a record at count 5 is attempted once more.
\<close>

theorem retries_never_decrease:
  assumes "store_ok s"
  shows "(\<forall>s'. markSynced e k sid s = Inr s' \<longrightarrow> retries_kept s s')
       \<and> (\<forall>s'. incrementRetry e k s = Inr s' \<longrightarrow> retries_kept s s')
       \<and> (\<forall>s'. photo_id q \<notin> photo_id ` set s \<and> savePhoto e q s = Inr s' \<longrightarrow> retries_kept s s')
       \<and> (new_id \<notin> photo_id ` set s \<longrightarrow> retries_kept s (db (shareCreate e new_id now url w h l s)))
       \<and> retries_kept s (db (syncPendingPhotos e s))
       \<and> retries_kept s (sync_runs es s)
       \<and> (\<forall>c ok. (c, ok) \<in> set (snd (sync_photo e photo s)) \<and> (is_remote c \<or> (\<exists>u. c = Fetch u)) \<longrightarrow>
             (\<exists>rest. snd (sync_photo e photo s) = (IncrementRetry (photo_id photo), True) # rest
                 \<and> (\<forall>k ok'. (IncrementRetry k, ok') \<notin> set rest))
           \<and> map_option retries (store_get (photo_id photo) (fst (sync_photo e photo s)))
               = map_option (\<lambda>item. retries item + 1) (store_get (photo_id photo) s))
       \<and> length (filter (\<lambda>ev. fst ev = IncrementRetry k) (log (syncPendingPhotos e s))) \<le> 1
       \<and> (p \<in> set s \<and> \<not> synced p \<and> retries p = 0
            \<and> (\<forall>e \<in> set es. \<not> fails e GetPendingPhotos \<and> \<not> fails e (IncrementRetry (photo_id p))
                   \<and> fails e (Upload (photo_id p @ ''.png'') True)) \<longrightarrow>
             store_get (photo_id p) (sync_runs es s)
               = Some (p\<lparr>retries := min (int (length es)) (MAX_RETRY_COUNT + 1)\<rparr>))"
proof (intro conjI allI impI)
  fix s' assume "markSynced e k sid s = Inr s'"
  with assms show "retries_kept s s'" by (rule markSynced_kept)
next
  fix s' assume "incrementRetry e k s = Inr s'"
  with assms show "retries_kept s s'" by (rule incrementRetry_kept)
next
  fix s' assume "photo_id q \<notin> photo_id ` set s \<and> savePhoto e q s = Inr s'"
  with assms show "retries_kept s s'" by (blast intro: savePhoto_kept)
next
  assume "new_id \<notin> photo_id ` set s"
  with assms show "retries_kept s (db (shareCreate e new_id now url w h l s))"
    by (rule shareCreate_kept)
next
  show "retries_kept s (db (syncPendingPhotos e s))" using assms by (rule run_kept)
  show "retries_kept s (sync_runs es s)" using assms by (rule runs_kept)
  show "length (filter (\<lambda>ev. fst ev = IncrementRetry k) (log (syncPendingPhotos e s))) \<le> 1"
    using assms by (rule run_increments_once)
next
  fix c ok
  assume "(c, ok) \<in> set (snd (sync_photo e photo s)) \<and> (is_remote c \<or> (\<exists>u. c = Fetch u))"
  then have in_log: "(c, ok) \<in> set (snd (sync_photo e photo s))"
    and net: "is_remote c \<or> (\<exists>u. c = Fetch u)" by blast+
  from sync_photo_increment_first [OF in_log net]
  show "\<exists>rest. snd (sync_photo e photo s) = (IncrementRetry (photo_id photo), True) # rest
                 \<and> (\<forall>k ok'. (IncrementRetry k, ok') \<notin> set rest)"
    and "map_option retries (store_get (photo_id photo) (fst (sync_photo e photo s)))
               = map_option (\<lambda>item. retries item + 1) (store_get (photo_id photo) s)"
    by blast+
next
  assume h: "p \<in> set s \<and> \<not> synced p \<and> retries p = 0
            \<and> (\<forall>e \<in> set es. \<not> fails e GetPendingPhotos \<and> \<not> fails e (IncrementRetry (photo_id p))
                   \<and> fails e (Upload (photo_id p @ ''.png'') True))"
  with assms have "store_get (photo_id p) s = Some p" by (simp add: store_get_of_mem)
  with assms h have "store_get (photo_id p) (sync_runs es s)
           = Some (p\<lparr>retries := (if MAX_RETRY_COUNT < retries p then retries p
                                 else min (retries p + int (length es)) (MAX_RETRY_COUNT + 1))\<rparr>)"
    by (intro runs_failing) simp_all
  with h show "store_get (photo_id p) (sync_runs es s)
               = Some (p\<lparr>retries := min (int (length es)) (MAX_RETRY_COUNT + 1)\<rparr>)"
    by (simp add: MAX_RETRY_COUNT_def)
qed

theorem retries_never_decrease_witness:
  "store_ok [pending_photo ''p1'' 0, pending_photo ''p2'' 3]
   \<and> markSynced online ''p2'' ''p2'' [pending_photo ''p1'' 0, pending_photo ''p2'' 3]
       = Inr [pending_photo ''p1'' 0, (pending_photo ''p2'' 3)\<lparr>synced := True, supabaseId := Some ''p2''\<rparr>]
   \<and> retries_kept [pending_photo ''p1'' 0, pending_photo ''p2'' 3]
        [pending_photo ''p1'' 0, (pending_photo ''p2'' 3)\<lparr>synced := True, supabaseId := Some ''p2''\<rparr>]
   \<and> incrementRetry online ''p2'' [pending_photo ''p1'' 0, pending_photo ''p2'' 3]
       = Inr [pending_photo ''p1'' 0, pending_photo ''p2'' 4]
   \<and> retries_kept [pending_photo ''p1'' 0, pending_photo ''p2'' 3]
        [pending_photo ''p1'' 0, pending_photo ''p2'' 4]
   \<and> ''abcdefghij'' \<notin> photo_id ` set [pending_photo ''p1'' 0, pending_photo ''p2'' 3]
   \<and> retries_kept [pending_photo ''p1'' 0, pending_photo ''p2'' 3]
        (db (shareCreate online ''abcdefghij'' 1765324800000 ''data:image/png;base64,AAAA''
               (Some 1240) (Some 1748) None [pending_photo ''p1'' 0, pending_photo ''p2'' 3]))
   \<and> retries_kept [pending_photo ''p1'' 0, pending_photo ''p2'' 3]
        (db (syncPendingPhotos (failing [Upload ''p1.png'' True])
               [pending_photo ''p1'' 0, pending_photo ''p2'' 3]))
   \<and> (Upload ''p1.png'' True, False)
        \<in> set (snd (sync_photo (failing [Upload ''p1.png'' True]) (pending_photo ''p1'' 0)
                   [pending_photo ''p1'' 0, pending_photo ''p2'' 3]))
   \<and> is_remote (Upload ''p1.png'' True)
   \<and> (\<exists>rest. snd (sync_photo (failing [Upload ''p1.png'' True]) (pending_photo ''p1'' 0)
                   [pending_photo ''p1'' 0, pending_photo ''p2'' 3])
              = (IncrementRetry ''p1'', True) # rest
            \<and> (\<forall>k ok'. (IncrementRetry k, ok') \<notin> set rest))
   \<and> map_option retries (store_get ''p1'' (fst (sync_photo (failing [Upload ''p1.png'' True])
            (pending_photo ''p1'' 0) [pending_photo ''p1'' 0, pending_photo ''p2'' 3])))
       = Some 1
   \<and> list_all (\<lambda>e. \<not> fails e GetPendingPhotos \<and> \<not> fails e (IncrementRetry ''p1'')
                   \<and> fails e (Upload ''p1.png'' True))
        (replicate 8 (failing [Upload ''p1.png'' True]))
   \<and> store_get ''p1'' (sync_runs (replicate 3 (failing [Upload ''p1.png'' True]))
          [pending_photo ''p1'' 0, pending_photo ''p2'' 3])
       = Some (pending_photo ''p1'' 3)
   \<and> store_get ''p1'' (sync_runs (replicate 8 (failing [Upload ''p1.png'' True]))
          [pending_photo ''p1'' 0, pending_photo ''p2'' 3])
       = Some (pending_photo ''p1'' 6)"
proof -
  let ?p1 = "pending_photo ''p1'' 0"
  let ?s = "[?p1, pending_photo ''p2'' 3]"
  let ?e = "failing [Upload ''p1.png'' True]"
  have ok: "store_ok ?s" by (simp add: store_ok_def pending_photo_def)
  have mark: "markSynced online ''p2'' ''p2'' ?s
       = Inr [?p1, (pending_photo ''p2'' 3)\<lparr>synced := True, supabaseId := Some ''p2''\<rparr>]"
    by (simp add: markSynced_def online_def pending_photo_def)
  have inc: "incrementRetry online ''p2'' ?s = Inr [?p1, pending_photo ''p2'' 4]"
    by (simp add: incrementRetry_def online_def pending_photo_def)
  have fresh: "''abcdefghij'' \<notin> photo_id ` set ?s" by (simp add: pending_photo_def)
  have ev: "(Upload ''p1.png'' True, False) \<in> set (snd (sync_photo ?e ?p1 ?s))"
    by (simp add: sync_photo_def incrementRetry_def Let_def pending_photo_def failing_def
        online_def MAX_RETRY_COUNT_def)
  have remote: "is_remote (Upload ''p1.png'' True)" by simp
  have k: "photo_id ?p1 = ''p1''" by (simp add: pending_photo_def)
  have p: "?p1 \<in> set ?s \<and> \<not> synced ?p1 \<and> retries ?p1 = 0" by (simp add: pending_photo_def)
  have envs: "\<forall>e \<in> set (replicate n ?e). \<not> fails e GetPendingPhotos
      \<and> \<not> fails e (IncrementRetry (photo_id ?p1)) \<and> fails e (Upload (photo_id ?p1 @ ''.png'') True)"
    for n
    by (simp add: failing_def pending_photo_def)
  have all: "list_all (\<lambda>e. \<not> fails e GetPendingPhotos \<and> \<not> fails e (IncrementRetry ''p1'')
                   \<and> fails e (Upload ''p1.png'' True)) (replicate 8 ?e)"
    by (simp add: list_all_iff failing_def)
  note t = retries_never_decrease [OF ok]
  have a: "retries_kept ?s [?p1, (pending_photo ''p2'' 3)\<lparr>synced := True, supabaseId := Some ''p2''\<rparr>]"
    using t [where e = online and k = "''p2''" and sid = "''p2''"] mark by blast
  have b: "retries_kept ?s [?p1, pending_photo ''p2'' 4]"
    using t [where e = online and k = "''p2''"] inc by blast
  have c: "retries_kept ?s (db (shareCreate online ''abcdefghij'' 1765324800000
      ''data:image/png;base64,AAAA'' (Some 1240) (Some 1748) None ?s))"
    using t [where e = online and new_id = "''abcdefghij''"] fresh by blast
  have d: "retries_kept ?s (db (syncPendingPhotos ?e ?s))"
    using t [where e = ?e] by blast
  have f: "(\<exists>rest. snd (sync_photo ?e ?p1 ?s) = (IncrementRetry ''p1'', True) # rest
            \<and> (\<forall>k ok'. (IncrementRetry k, ok') \<notin> set rest))
       \<and> map_option retries (store_get ''p1'' (fst (sync_photo ?e ?p1 ?s)))
           = map_option (\<lambda>item. retries item + 1) (store_get ''p1'' ?s)"
    using t [where e = ?e and photo = ?p1] ev remote unfolding k by blast
  have g: "map_option (\<lambda>item. retries item + 1) (store_get ''p1'' ?s) = Some 1"
    by (simp add: pending_photo_def)
  have r3: "store_get ''p1'' (sync_runs (replicate 3 ?e) ?s) = Some (pending_photo ''p1'' 3)"
    using t [where es = "replicate 3 ?e" and p = ?p1] p envs [of 3]
    by (simp add: pending_photo_def MAX_RETRY_COUNT_def)
  have r8: "store_get ''p1'' (sync_runs (replicate 8 ?e) ?s) = Some (pending_photo ''p1'' 6)"
    using t [where es = "replicate 8 ?e" and p = ?p1] p envs [of 8]
    by (simp add: pending_photo_def MAX_RETRY_COUNT_def)
  from ok mark a inc b fresh c d ev remote f g all r3 r8 show ?thesis
    by (simp only: simp_thms)
qed

section \<open>The remote identifier\<close>

lemma sync_photo_own_id:
  assumes "\<forall>item. store_get j s = Some item \<and> synced item \<longrightarrow> supabaseId item = Some j"
  shows "\<forall>item. store_get j (fst (sync_photo e photo s)) = Some item \<and> synced item
           \<longrightarrow> supabaseId item = Some j"
proof (cases "j = photo_id photo")
  case True
  with assms show ?thesis
    by (auto simp: sync_photo_get_self split: if_splits)
next
  case False
  with assms show ?thesis by (simp add: sync_photo_get_other)
qed

lemma sync_loop_own_id:
  assumes "\<forall>item. store_get j s = Some item \<and> synced item \<longrightarrow> supabaseId item = Some j"
  shows "\<forall>item. store_get j (fst (sync_loop e ps s)) = Some item \<and> synced item
           \<longrightarrow> supabaseId item = Some j"
  using assms
proof (induction ps arbitrary: s)
  case Nil
  then show ?case by simp
next
  case (Cons q qs)
  from Cons.prems have "\<forall>item. store_get j (fst (sync_photo e q s)) = Some item \<and> synced item
           \<longrightarrow> supabaseId item = Some j"
    by (rule sync_photo_own_id)
  then show ?case unfolding sync_loop_Cons_fst by (rule Cons.IH)
qed

lemma run_own_id:
  assumes "\<forall>item. store_get j s = Some item \<and> synced item \<longrightarrow> supabaseId item = Some j"
  shows "\<forall>item. store_get j (db (syncPendingPhotos e s)) = Some item \<and> synced item
           \<longrightarrow> supabaseId item = Some j"
proof (cases "fails e GetPendingPhotos")
  case True
  with assms show ?thesis by (simp add: run_db)
next
  case False
  then have "db (syncPendingPhotos e s) = fst (sync_loop e (filter (\<lambda>p. \<not> synced p) s) s)"
    by (simp add: run_db)
  then show ?thesis using sync_loop_own_id [OF assms] by metis
qed

lemma shareCreate_own_id:
  assumes "\<forall>item. store_get j s = Some item \<and> synced item \<longrightarrow> supabaseId item = Some j"
  shows "\<forall>item. store_get j (db (shareCreate e new_id now url w h l s)) = Some item \<and> synced item
           \<longrightarrow> supabaseId item = Some j"
  using assms by (auto simp: shareCreate_db store_get_put split: if_splits)

lemma run_log_event:
  assumes "(c, ok) \<in> set (log (syncPendingPhotos e s))" and "c \<noteq> GetPendingPhotos"
  shows "\<exists>q \<in> set s. \<not> synced q \<and> (c, ok) \<in> set (snd (sync_photo e q []))"
  using assms by (auto simp: run_log sync_loop_log split: if_splits)

lemma sync_photo_mark_event:
  "(MarkSynced k sid, ok) \<in> set (snd (sync_photo e q s)) \<Longrightarrow>
     sid = k \<and> k = photo_id q \<and> (Upload (k @ ''.png'') True, True) \<in> set (snd (sync_photo e q s))"
  by (auto simp: sync_photo_def Let_def markSynced_result incrementRetry_result split: if_splits)

lemma sync_photo_upload_event:
  "(Upload path u, ok) \<in> set (snd (sync_photo e q s)) \<Longrightarrow> path = photo_id q @ ''.png'' \<and> u"
  by (auto simp: sync_photo_def Let_def markSynced_result incrementRetry_result split: if_splits)

lemma run_log_mem:
  assumes "q \<in> set s" and "\<not> synced q" and "(c, ok) \<in> set (snd (sync_photo e q []))"
    and "\<not> fails e GetPendingPhotos"
  shows "(c, ok) \<in> set (log (syncPendingPhotos e s))"
  using assms by (auto simp: run_log sync_loop_log)

text \<open>
  Claim C10. Whenever the capture path or a sync run leaves under a key a record with
  \<open>synced = true\<close> that was not stored as synced under that key before, the record's
  \<open>supabaseId\<close> is that key, its own identifier; and a store in which every synced
  record carries its own identifier as \<open>supabaseId\<close> stays so. Both paths call
  \<open>markSynced\<close> with the local identifier in both arguments, and the object they
  upload has the key of the local identifier followed by \<open>.png\<close>: in a sync run a
  call of \<open>markSynced\<close> for \<open>k\<close> comes with a successful upload of \<open>k.png\<close>.
\<close>

theorem remote_id_is_local_id:
  "(\<forall>j item'. store_get j (db (shareCreate e new_id now url w h l s)) = Some item' \<and> synced item'
        \<and> \<not> (\<exists>item. store_get j s = Some item \<and> synced item) \<longrightarrow> supabaseId item' = Some j)
   \<and> (\<forall>j item'. store_get j (db (syncPendingPhotos e s)) = Some item' \<and> synced item'
        \<and> \<not> (\<exists>item. store_get j s = Some item \<and> synced item) \<longrightarrow> supabaseId item' = Some j)
   \<and> ((\<forall>j item. store_get j s = Some item \<and> synced item \<longrightarrow> supabaseId item = Some j) \<longrightarrow>
        (\<forall>j item. store_get j (db (shareCreate e new_id now url w h l s)) = Some item \<and> synced item
            \<longrightarrow> supabaseId item = Some j)
      \<and> (\<forall>j item. store_get j (db (syncPendingPhotos e s)) = Some item \<and> synced item
            \<longrightarrow> supabaseId item = Some j))
   \<and> (\<forall>k sid ok. (MarkSynced k sid, ok) \<in> set (log (shareCreate e new_id now url w h l s)) \<longrightarrow>
        sid = k \<and> k = new_id
      \<and> (Upload (k @ ''.png'') False, True) \<in> set (log (shareCreate e new_id now url w h l s)))
   \<and> (\<forall>k sid ok. (MarkSynced k sid, ok) \<in> set (log (syncPendingPhotos e s)) \<longrightarrow>
        sid = k \<and> (\<exists>q \<in> set s. \<not> synced q \<and> photo_id q = k)
      \<and> (Upload (k @ ''.png'') True, True) \<in> set (log (syncPendingPhotos e s)))
   \<and> (\<forall>path u ok. (Upload path u, ok) \<in> set (log (shareCreate e new_id now url w h l s)) \<longrightarrow>
        path = new_id @ ''.png'')
   \<and> (\<forall>path u ok. (Upload path u, ok) \<in> set (log (syncPendingPhotos e s)) \<longrightarrow>
        (\<exists>q \<in> set s. \<not> synced q \<and> path = photo_id q @ ''.png''))"
proof (intro conjI allI impI)
  fix j item'
  assume h: "store_get j (db (shareCreate e new_id now url w h l s)) = Some item' \<and> synced item'
        \<and> \<not> (\<exists>item. store_get j s = Some item \<and> synced item)"
  then have "\<forall>item. store_get j s = Some item \<and> synced item \<longrightarrow> supabaseId item = Some j"
    by blast
  from shareCreate_own_id [OF this, of e new_id now url w h l] h
  show "supabaseId item' = Some j" by blast
next
  fix j item'
  assume h: "store_get j (db (syncPendingPhotos e s)) = Some item' \<and> synced item'
        \<and> \<not> (\<exists>item. store_get j s = Some item \<and> synced item)"
  then have "\<forall>item. store_get j s = Some item \<and> synced item \<longrightarrow> supabaseId item = Some j"
    by blast
  from run_own_id [OF this, of e] h show "supabaseId item' = Some j" by blast
next
  fix j item
  assume inv: "\<forall>j item. store_get j s = Some item \<and> synced item \<longrightarrow> supabaseId item = Some j"
  then have one: "\<forall>item. store_get j s = Some item \<and> synced item \<longrightarrow> supabaseId item = Some j"
    by blast
  show "supabaseId item = Some j"
    if "store_get j (db (shareCreate e new_id now url w h l s)) = Some item \<and> synced item"
    using shareCreate_own_id [OF one, of e new_id now url w h l] that by blast
  show "supabaseId item = Some j"
    if "store_get j (db (syncPendingPhotos e s)) = Some item \<and> synced item"
    using run_own_id [OF one, of e] that by blast
next
  fix k sid ok
  assume m: "(MarkSynced k sid, ok) \<in> set (log (shareCreate e new_id now url w h l s))"
  then show "sid = k" and "k = new_id"
    and "(Upload (k @ ''.png'') False, True) \<in> set (log (shareCreate e new_id now url w h l s))"
    by (auto simp: shareCreate_def savePhoto_def markSynced_result Let_def split: if_splits)
next
  fix k sid ok
  assume m: "(MarkSynced k sid, ok) \<in> set (log (syncPendingPhotos e s))"
  then obtain q where q: "q \<in> set s" "\<not> synced q"
    and ev: "(MarkSynced k sid, ok) \<in> set (snd (sync_photo e q []))"
    using run_log_event by blast
  from m have up: "\<not> fails e GetPendingPhotos" by (auto simp: run_log split: if_splits)
  from sync_photo_mark_event [OF ev] show "sid = k" by simp
  from sync_photo_mark_event [OF ev] q show "\<exists>q \<in> set s. \<not> synced q \<and> photo_id q = k" by auto
  from sync_photo_mark_event [OF ev]
  have "(Upload (k @ ''.png'') True, True) \<in> set (snd (sync_photo e q []))" by blast
  with q up show "(Upload (k @ ''.png'') True, True) \<in> set (log (syncPendingPhotos e s))"
    by (intro run_log_mem)
next
  fix path u ok
  assume "(Upload path u, ok) \<in> set (log (shareCreate e new_id now url w h l s))"
  then show "path = new_id @ ''.png''"
    by (auto simp: shareCreate_def savePhoto_def markSynced_result Let_def split: if_splits)
next
  fix path u ok
  assume "(Upload path u, ok) \<in> set (log (syncPendingPhotos e s))"
  then obtain q where "q \<in> set s" "\<not> synced q"
    and "(Upload path u, ok) \<in> set (snd (sync_photo e q []))"
    using run_log_event by blast
  then show "\<exists>q \<in> set s. \<not> synced q \<and> path = photo_id q @ ''.png''"
    using sync_photo_upload_event by blast
qed

theorem remote_id_is_local_id_witness:
  "store_get ''abcdefghij'' [pending_photo ''p1'' 0, pending_photo ''p2'' 6] = None
   \<and> (\<exists>item'. store_get ''abcdefghij''
          (db (shareCreate online ''abcdefghij'' 1765324800000 ''data:image/png;base64,AAAA''
                 (Some 1240) (Some 1748) None [pending_photo ''p1'' 0, pending_photo ''p2'' 6]))
          = Some item'
        \<and> synced item' \<and> supabaseId item' = Some ''abcdefghij'')
   \<and> (MarkSynced ''abcdefghij'' ''abcdefghij'', True)
        \<in> set (log (shareCreate online ''abcdefghij'' 1765324800000 ''data:image/png;base64,AAAA''
                 (Some 1240) (Some 1748) None [pending_photo ''p1'' 0, pending_photo ''p2'' 6]))
   \<and> (Upload ''abcdefghij.png'' False, True)
        \<in> set (log (shareCreate online ''abcdefghij'' 1765324800000 ''data:image/png;base64,AAAA''
                 (Some 1240) (Some 1748) None [pending_photo ''p1'' 0, pending_photo ''p2'' 6]))
   \<and> store_get ''p1'' [pending_photo ''p1'' 0, pending_photo ''p2'' 6] = Some (pending_photo ''p1'' 0)
   \<and> \<not> synced (pending_photo ''p1'' 0)
   \<and> (\<exists>item'. store_get ''p1''
          (db (syncPendingPhotos online [pending_photo ''p1'' 0, pending_photo ''p2'' 6]))
          = Some item'
        \<and> synced item' \<and> supabaseId item' = Some ''p1'')
   \<and> (MarkSynced ''p1'' ''p1'', True)
        \<in> set (log (syncPendingPhotos online [pending_photo ''p1'' 0, pending_photo ''p2'' 6]))
   \<and> (Upload ''p1.png'' True, True)
        \<in> set (log (syncPendingPhotos online [pending_photo ''p1'' 0, pending_photo ''p2'' 6]))"
proof -
  let ?s = "[pending_photo ''p1'' 0, pending_photo ''p2'' 6]"
  let ?c = "shareCreate online ''abcdefghij'' 1765324800000 ''data:image/png;base64,AAAA''
                 (Some 1240) (Some 1748) None ?s"
  let ?r = "syncPendingPhotos online ?s"
  note t = remote_id_is_local_id [of online "''abcdefghij''" 1765324800000
      "''data:image/png;base64,AAAA''" "Some 1240" "Some 1748" None ?s]
  have new: "store_get ''abcdefghij'' ?s = None" by (simp add: pending_photo_def)
  have old: "store_get ''p1'' ?s = Some (pending_photo ''p1'' 0)" "\<not> synced (pending_photo ''p1'' 0)"
    by (simp_all add: pending_photo_def)
  have c1: "\<exists>item'. store_get ''abcdefghij'' (db ?c) = Some item' \<and> synced item'"
    by (simp add: shareCreate_db online_def store_get_put)
  have c2: "(MarkSynced ''abcdefghij'' ''abcdefghij'', True) \<in> set (log ?c)"
    by (simp add: shareCreate_def savePhoto_def markSynced_def Let_def online_def
        store_get_put)
  have r1: "\<exists>item'. store_get ''p1'' (db ?r) = Some item' \<and> synced item'"
    by (simp add: syncPendingPhotos_def getPendingPhotos_def sync_photo_def markSynced_def
        incrementRetry_def Let_def pending_photo_def online_def MAX_RETRY_COUNT_def)
  have r2: "(MarkSynced ''p1'' ''p1'', True) \<in> set (log ?r)"
    by (simp add: syncPendingPhotos_def getPendingPhotos_def sync_photo_def markSynced_def
        incrementRetry_def Let_def pending_photo_def online_def MAX_RETRY_COUNT_def)
  from t c1 new have a: "\<exists>item'. store_get ''abcdefghij'' (db ?c) = Some item'
        \<and> synced item' \<and> supabaseId item' = Some ''abcdefghij''"
    by (metis option.distinct(1))
  from t c2 have b: "(Upload (''abcdefghij'' @ ''.png'') False, True) \<in> set (log ?c)"
    by blast
  from t r1 old have c: "\<exists>item'. store_get ''p1'' (db ?r) = Some item'
        \<and> synced item' \<and> supabaseId item' = Some ''p1''"
    by (metis option.inject)
  from t r2 have d: "(Upload (''p1'' @ ''.png'') True, True) \<in> set (log ?r)"
    by blast
  from new a c2 b old c r2 d show ?thesis by simp
qed

end
